theory Spec2Isabelle
  imports Complex_Main
begin

section \<open>Strings of the host language\<close>

text \<open>
  A string of the host language is a sequence of 16-bit code units. Text that reaches the
  component from outside (prompts, messages of the service, URLs, response bodies) is taken
  from the Latin-1 range and held as a \<^typ>\<open>string\<close>. Text that the component computes
  from it with \<^verbatim>\<open>JSON.parse\<close> can hold any code unit (an escape \<^verbatim>\<open>\uXXXX\<close> names one) and is
  held as the list of its code units; \<open>units\<close> takes a string of the first kind to its code
  units. The functions below are the string primitives the source calls:
  \<^verbatim>\<open>String.prototype.trim\<close>, \<^verbatim>\<open>includes\<close> and \<^verbatim>\<open>toLowerCase\<close>.
\<close>

type_synonym codeUnits = "int list"

definition units :: "string \<Rightarrow> codeUnits" where
  "units s = map of_char s"

definition isWhiteSpace :: "char \<Rightarrow> bool" where
  "isWhiteSpace c \<longleftrightarrow>
     c \<in> set [CHR 0x09, CHR 0x0A, CHR 0x0B, CHR 0x0C, CHR 0x0D, CHR 0x20, CHR 0xA0]"

definition trim :: "string \<Rightarrow> string" where
  "trim s = rev (dropWhile isWhiteSpace (rev (dropWhile isWhiteSpace s)))"

fun includesStr :: "'a list \<Rightarrow> 'a list \<Rightarrow> bool" where
  "includesStr [] sub = (sub = [])"
| "includesStr (c # cs) sub = (take (length sub) (c # cs) = sub \<or> includesStr cs sub)"

text \<open>
  \<^verbatim>\<open>toLowerCase\<close> follows the case table of Unicode. Up to \<^verbatim>\<open>00FF\<close> the table is given in
  full: the letters \<^verbatim>\<open>A\<close> to \<^verbatim>\<open>Z\<close> and \<^verbatim>\<open>00C0\<close> to \<^verbatim>\<open>00DE\<close> (without the sign \<^verbatim>\<open>00D7\<close>) move
  up by 32. Above \<^verbatim>\<open>00FF\<close> five units have a lower case that lies, wholly or in part, in the
  range up to \<^verbatim>\<open>00FF\<close>: \<^verbatim>\<open>0130\<close> (to \<^verbatim>\<open>i\<close> and \<^verbatim>\<open>0307\<close>), \<^verbatim>\<open>0178\<close> (to \<^verbatim>\<open>00FF\<close>), \<^verbatim>\<open>1E9E\<close> (to
  \<^verbatim>\<open>00DF\<close>), \<^verbatim>\<open>212A\<close> (to \<^verbatim>\<open>k\<close>) and \<^verbatim>\<open>212B\<close> (to \<^verbatim>\<open>00E5\<close>). Every other unit above \<^verbatim>\<open>00FF\<close>
  is taken to a unit above \<^verbatim>\<open>00FF\<close>; the result records such a unit as \<open>None\<close>, without its
  value.
\<close>

definition toLowerUnit :: "int \<Rightarrow> int option list" where
  "toLowerUnit n =
     (if (65 \<le> n \<and> n \<le> 90) \<or> (192 \<le> n \<and> n \<le> 222 \<and> n \<noteq> 215) then [Some (n + 32)]
      else if n < 256 then [Some n]
      else if n = 0x0130 then [Some 0x69, Some 0x0307]
      else if n = 0x0178 then [Some 0xFF]
      else if n = 0x1E9E then [Some 0xDF]
      else if n = 0x212A then [Some 0x6B]
      else if n = 0x212B then [Some 0xE5]
      else [None])"

definition toLowerCase :: "codeUnits \<Rightarrow> int option list" where
  "toLowerCase s = concat (map toLowerUnit s)"

text \<open>
  Decimal rendering of an integral number (\<^verbatim>\<open>Number.prototype.toString\<close> applied to a
  timestamp).
\<close>

definition digitChar :: "int \<Rightarrow> char" where
  "digitChar d = char_of (48 + d)"

function toDecimalNat :: "int \<Rightarrow> string" where
  "toDecimalNat n =
     (if n < 10 then [digitChar n] else toDecimalNat (n div 10) @ [digitChar (n mod 10)])"
  by pat_completeness auto
termination
  by (relation "measure nat") auto

declare toDecimalNat.simps [simp del]

definition toDecimal :: "int \<Rightarrow> string" where
  "toDecimal n = (if n < 0 then CHR ''-'' # toDecimalNat (- n) else toDecimalNat n)"

section \<open>JSON values and \<^verbatim>\<open>JSON.parse\<close>\<close>

text \<open>
  A number is kept as mantissa and decimal exponent (\<open>m * 10 ^ e\<close>); objects keep their members
  in source order.
\<close>

datatype json =
    JNull
  | JBool bool
  | JNum int int
  | JStr codeUnits
  | JArr "json list"
  | JObj "(codeUnits \<times> json) list"

definition isJsonWs :: "char \<Rightarrow> bool" where
  "isJsonWs c \<longleftrightarrow> c \<in> set [CHR 0x09, CHR 0x0A, CHR 0x0D, CHR 0x20]"

definition skipWs :: "string \<Rightarrow> string" where
  "skipWs s = dropWhile isJsonWs s"

definition isDigit :: "char \<Rightarrow> bool" where
  "isDigit c \<longleftrightarrow> 48 \<le> (of_char c :: int) \<and> (of_char c :: int) \<le> 57"

definition digitVal :: "char \<Rightarrow> int" where
  "digitVal c = (of_char c :: int) - 48"

definition digitsVal :: "string \<Rightarrow> int" where
  "digitsVal ds = foldl (\<lambda>a c. 10 * a + digitVal c) 0 ds"

definition hexVal :: "char \<Rightarrow> int option" where
  "hexVal c =
     (let n = (of_char c :: int)
      in if 48 \<le> n \<and> n \<le> 57 then Some (n - 48)
         else if 65 \<le> n \<and> n \<le> 70 then Some (n - 55)
         else if 97 \<le> n \<and> n \<le> 102 then Some (n - 87)
         else None)"

definition hex4 :: "char \<Rightarrow> char \<Rightarrow> char \<Rightarrow> char \<Rightarrow> int option" where
  "hex4 a b c d =
     (case (hexVal a, hexVal b, hexVal c, hexVal d) of
        (Some w, Some x, Some y, Some z) \<Rightarrow> Some (4096 * w + 256 * x + 16 * y + z)
      | _ \<Rightarrow> None)"

definition unescape :: "char \<Rightarrow> char option" where
  "unescape e =
     (if e = CHR 0x22 then Some (CHR 0x22)
      else if e = CHR 0x5C then Some (CHR 0x5C)
      else if e = CHR ''/'' then Some (CHR ''/'')
      else if e = CHR ''b'' then Some (CHR 0x08)
      else if e = CHR ''f'' then Some (CHR 0x0C)
      else if e = CHR ''n'' then Some (CHR 0x0A)
      else if e = CHR ''r'' then Some (CHR 0x0D)
      else if e = CHR ''t'' then Some (CHR 0x09)
      else None)"

definition consChar ::
  "int \<Rightarrow> (codeUnits \<times> string) option \<Rightarrow> (codeUnits \<times> string) option" where
  "consChar c r = (case r of None \<Rightarrow> None | Some (s, rest) \<Rightarrow> Some (c # s, rest))"

text \<open>
  The code units of a string literal, read after its opening quote, up to and including the
  closing quote. An escape \<^verbatim>\<open>\uXXXX\<close> stands for the code unit with that number.
\<close>

fun parseString :: "string \<Rightarrow> (codeUnits \<times> string) option" where
  "parseString [] = None"
| "parseString (c # cs) =
     (if c = CHR 0x22 then Some ([], cs)
      else if c = CHR 0x5C then
        (case cs of
           [] \<Rightarrow> None
         | e # r \<Rightarrow>
             if e = CHR ''u'' then
               (case r of
                  h1 # h2 # h3 # h4 # r' \<Rightarrow>
                    (case hex4 h1 h2 h3 h4 of
                       None \<Rightarrow> None
                     | Some n \<Rightarrow> consChar n (parseString r'))
                | _ \<Rightarrow> None)
             else
               (case unescape e of
                  None \<Rightarrow> None
                | Some ch \<Rightarrow> consChar (of_char ch) (parseString r)))
      else if (of_char c :: int) < 32 then None
      else consChar (of_char c) (parseString cs))"

text \<open>
  The grammar of a number: \<^verbatim>\<open>-? (0 | [1-9][0-9]*) (. [0-9]+)? ([eE] [+-]? [0-9]+)?\<close>.
\<close>

definition parseExponent :: "string \<Rightarrow> (int \<times> string) option" where
  "parseExponent cs =
     (case cs of
        [] \<Rightarrow> Some (0, cs)
      | c # r \<Rightarrow>
          if c = CHR ''e'' \<or> c = CHR ''E'' then
            (let neg = (r \<noteq> [] \<and> hd r = CHR ''-'');
                 r1 = (if r \<noteq> [] \<and> (hd r = CHR ''-'' \<or> hd r = CHR ''+'') then tl r else r);
                 ds = takeWhile isDigit r1
             in if ds = [] then None
                else Some ((if neg then - digitsVal ds else digitsVal ds),
                           dropWhile isDigit r1))
          else Some (0, cs))"

definition parseFraction :: "string \<Rightarrow> (string \<times> string) option" where
  "parseFraction cs =
     (case cs of
        [] \<Rightarrow> Some ([], cs)
      | c # r \<Rightarrow>
          if c = CHR ''.'' then
            (let ds = takeWhile isDigit r
             in if ds = [] then None else Some (ds, dropWhile isDigit r))
          else Some ([], cs))"

definition parseNumber :: "string \<Rightarrow> (json \<times> string) option" where
  "parseNumber cs =
     (let neg = (cs \<noteq> [] \<and> hd cs = CHR ''-'');
          r0 = (if neg then tl cs else cs);
          ip = (if r0 \<noteq> [] \<and> hd r0 = CHR ''0'' then [CHR ''0''] else takeWhile isDigit r0);
          r1 = drop (length ip) r0
      in if ip = [] then None
         else (case parseFraction r1 of
                 None \<Rightarrow> None
               | Some (fp, r2) \<Rightarrow>
                   (case parseExponent r2 of
                      None \<Rightarrow> None
                    | Some (ex, r3) \<Rightarrow>
                        (let m = digitsVal (ip @ fp)
                         in Some (JNum (if neg then - m else m) (ex - int (length fp)), r3)))))"

definition parseLiteral :: "string \<Rightarrow> (json \<times> string) option" where
  "parseLiteral cs =
     (if take 4 cs = ''true'' then Some (JBool True, drop 4 cs)
      else if take 5 cs = ''false'' then Some (JBool False, drop 5 cs)
      else if take 4 cs = ''null'' then Some (JNull, drop 4 cs)
      else None)"

text \<open>
  Values, array elements and object members. The first argument bounds the number of nested
  calls; \<open>JSON_parse\<close> below starts with more than the length of the text: a value, an
  element list or a member list needs no more than the number of characters it spans.
\<close>

fun parseValue :: "nat \<Rightarrow> string \<Rightarrow> (json \<times> string) option"
  and parseElements :: "nat \<Rightarrow> string \<Rightarrow> (json list \<times> string) option"
  and parseMembers :: "nat \<Rightarrow> string \<Rightarrow> ((codeUnits \<times> json) list \<times> string) option"
where
  "parseValue 0 cs = None"
| "parseValue (Suc n) cs =
     (case cs of
        [] \<Rightarrow> None
      | c # r \<Rightarrow>
          if c = CHR ''{'' then
            (let r1 = skipWs r
             in if r1 \<noteq> [] \<and> hd r1 = CHR ''}'' then Some (JObj [], tl r1)
                else (case parseMembers n r1 of
                        None \<Rightarrow> None
                      | Some (kvs, r2) \<Rightarrow> Some (JObj kvs, r2)))
          else if c = CHR ''['' then
            (let r1 = skipWs r
             in if r1 \<noteq> [] \<and> hd r1 = CHR '']'' then Some (JArr [], tl r1)
                else (case parseElements n r1 of
                        None \<Rightarrow> None
                      | Some (vs, r2) \<Rightarrow> Some (JArr vs, r2)))
          else if c = CHR 0x22 then
            (case parseString r of
               None \<Rightarrow> None
             | Some (s, r1) \<Rightarrow> Some (JStr s, r1))
          else if c = CHR ''-'' \<or> isDigit c then parseNumber cs
          else parseLiteral cs)"
| "parseElements 0 cs = None"
| "parseElements (Suc n) cs =
     (case parseValue n cs of
        None \<Rightarrow> None
      | Some (v, r) \<Rightarrow>
          (case skipWs r of
             [] \<Rightarrow> None
           | c # r1 \<Rightarrow>
               if c = CHR '']'' then Some ([v], r1)
               else if c = CHR '','' then
                 (case parseElements n (skipWs r1) of
                    None \<Rightarrow> None
                  | Some (vs, r2) \<Rightarrow> Some (v # vs, r2))
               else None))"
| "parseMembers 0 cs = None"
| "parseMembers (Suc n) cs =
     (case cs of
        [] \<Rightarrow> None
      | q # r \<Rightarrow>
          if q \<noteq> CHR 0x22 then None
          else
            (case parseString r of
               None \<Rightarrow> None
             | Some (k, r1) \<Rightarrow>
                 (case skipWs r1 of
                    [] \<Rightarrow> None
                  | c1 # r2 \<Rightarrow>
                      if c1 \<noteq> CHR '':'' then None
                      else
                        (case parseValue n (skipWs r2) of
                           None \<Rightarrow> None
                         | Some (v, r3) \<Rightarrow>
                             (case skipWs r3 of
                                [] \<Rightarrow> None
                              | c3 # r4 \<Rightarrow>
                                  if c3 = CHR ''}'' then Some ([(k, v)], r4)
                                  else if c3 = CHR '','' then
                                    (case parseMembers n (skipWs r4) of
                                       None \<Rightarrow> None
                                     | Some (kvs, r5) \<Rightarrow> Some ((k, v) # kvs, r5))
                                  else None)))))"

text \<open>\<^verbatim>\<open>JSON.parse(text)\<close>: \<open>None\<close> stands for the \<^verbatim>\<open>SyntaxError\<close> it throws.\<close>

definition JSON_parse :: "string \<Rightarrow> json option" where
  "JSON_parse s =
     (case parseValue (Suc (length s)) (skipWs s) of
        None \<Rightarrow> None
      | Some (v, rest) \<Rightarrow> if skipWs rest = [] then Some v else None)"

text \<open>
  Truthiness of a parsed value. A number literal denotes zero when its mantissa is zero or
  when it is so small that it rounds to zero (at most \<open>2 ^ - 1075\<close> in magnitude).
\<close>

definition numberIsZero :: "int \<Rightarrow> int \<Rightarrow> bool" where
  "numberIsZero m e \<longleftrightarrow> m = 0 \<or> (e < 0 \<and> \<bar>m\<bar> * 2 ^ 1075 \<le> 10 ^ nat (- e))"

fun truthy :: "json \<Rightarrow> bool" where
  "truthy JNull = False"
| "truthy (JBool b) = b"
| "truthy (JNum m e) = (\<not> numberIsZero m e)"
| "truthy (JStr s) = (s \<noteq> [])"
| "truthy (JArr vs) = True"
| "truthy (JObj kvs) = True"

text \<open>
  Property read \<open>v.k\<close> on a parsed value other than \<^verbatim>\<open>null\<close>: \<open>None\<close> is \<^verbatim>\<open>undefined\<close>.
  A repeated key of an object holds the value of its last occurrence.
\<close>

fun getProp :: "json \<Rightarrow> codeUnits \<Rightarrow> json option" where
  "getProp (JObj kvs) k = map_of (rev kvs) k"
| "getProp v k = None"

text \<open>Optional chaining \<open>v?.k\<close>: \<^verbatim>\<open>undefined\<close> when \<open>v\<close> is \<^verbatim>\<open>undefined\<close> or \<^verbatim>\<open>null\<close>.\<close>

fun optChain :: "json option \<Rightarrow> codeUnits \<Rightarrow> json option" where
  "optChain None k = None"
| "optChain (Some JNull) k = None"
| "optChain (Some v) k = getProp v k"

section \<open>Data model (types.ts)\<close>

datatype Resolution = R720p | R1080p

datatype AspectRatio = A16x9 | A9x16

record GeneratedVideo =
  video_id :: string
  video_url :: string
  video_prompt :: string
  video_resolution :: Resolution
  video_aspectRatio :: AspectRatio
  video_createdAt :: int

record ImagePayload =
  imageBytes :: "string option"
  mimeType :: string

text \<open>The selected reference image: the MIME type of its file and its preview data URL.\<close>

record SelectedImage =
  file_type :: string
  preview :: string

text \<open>The error on display; its message can be text that \<^verbatim>\<open>JSON.parse\<close> has computed.\<close>

record ErrorInfo =
  message :: codeUnits
  isQuota :: bool

text \<open>The component state of \<^verbatim>\<open>VideoStudio\<close> (its \<^verbatim>\<open>useState\<close> cells).\<close>

record studio =
  prompt :: string
  resolution :: Resolution
  aspectRatio :: AspectRatio
  isGenerating :: bool
  statusMessage :: string
  history :: "GeneratedVideo list"
  error :: "ErrorInfo option"
  selectedImage :: "SelectedImage option"

section \<open>The world outside the component\<close>

text \<open>
  A thrown value, as far as the code observes it: its \<^verbatim>\<open>message\<close> property (\<open>None\<close> when
  absent), what \<^verbatim>\<open>JSON.stringify\<close> makes of it and what \<^verbatim>\<open>String\<close> makes of it.
\<close>

record js_error =
  err_message :: "string option"
  err_json :: string
  err_string :: string

text \<open>\<^verbatim>\<open>new Error(m)\<close>\<close>

definition Error :: "string \<Rightarrow> js_error" where
  "Error m = \<lparr> err_message = Some m, err_json = ''{}'',
               err_string = (if m = [] then ''Error'' else ''Error: '' @ m) \<rparr>"

text \<open>
  The long-running operation the service reports: \<open>op_error\<close> is \<open>None\<close> when the operation
  carries no error object, and \<open>Some m\<close> with the error object's message otherwise;
  \<open>op_videoUri\<close> is the value of \<^verbatim>\<open>operation.response?.generatedVideos?.[0]?.video?.uri\<close>.
\<close>

record operation =
  op_done :: bool
  op_error :: "string option option"
  op_videoUri :: "string option"

text \<open>
  What \<^verbatim>\<open>fetch\<close> and the reading of the response come to: a rejection, a response that is
  not \<^verbatim>\<open>ok\<close> (status and body text), or a body turned into an object URL.
\<close>

datatype http_response =
    NetworkError js_error
  | HttpError int string
  | HttpOk string

text \<open>
  The answers of the outside world to one run of the controller: the file reader, the two SDK
  calls (the polls numbered from 0), the download, the random numbers drawn in the poll
  loop, the two clock readings and the configured key.
\<close>

record env =
  fileReader :: "js_error + string"
  sdk_generateVideos :: "js_error + operation"
  sdk_getVideosOperation :: "nat \<Rightarrow> js_error + operation"
  http_fetch :: http_response
  math_random :: "nat \<Rightarrow> rat"
  date_now_id :: int
  date_now_createdAt :: int
  api_key :: string

text \<open>The calls the code makes to the outside, in order.\<close>

datatype event =
    GenerateVideos string "ImagePayload option" Resolution AspectRatio
  | SetTimeout int
  | GetVideosOperation operation
  | Fetch string
  | RevokeObjectURL string
  | OnKeyReset

section \<open>The generation client (services/geminiService.ts)\<close>

definition entityNotFound :: string where
  "entityNotFound = ''Requested entity was not found''"

definition API_KEY_RESET_REQUIRED :: string where
  "API_KEY_RESET_REQUIRED = ''API_KEY_RESET_REQUIRED''"

text \<open>The \<^verbatim>\<open>catch\<close> block shared by \<^verbatim>\<open>generateVeoVideo\<close> and \<^verbatim>\<open>getOperationStatus\<close>.\<close>

definition rethrow :: "js_error \<Rightarrow> js_error" where
  "rethrow err =
     (let errorStr = err_json err @ (case err_message err of None \<Rightarrow> [] | Some m \<Rightarrow> m)
      in if includesStr errorStr entityNotFound then Error API_KEY_RESET_REQUIRED else err)"

text \<open>The prompt of the request: \<^verbatim>\<open>prompt || 'Animate this image with natural motion'\<close>.\<close>

definition sentPrompt :: "string \<Rightarrow> string" where
  "sentPrompt p = (if p \<noteq> [] then p else ''Animate this image with natural motion'')"

definition generateVeoVideo ::
  "env \<Rightarrow> string \<Rightarrow> Resolution \<Rightarrow> AspectRatio \<Rightarrow> ImagePayload option \<Rightarrow>
   (js_error + operation) \<times> event list" where
  "generateVeoVideo w p res ar img =
     (let calls = [GenerateVideos (sentPrompt p) img res ar]
      in case sdk_generateVideos w of
           Inr operation \<Rightarrow> (Inr operation, calls)
         | Inl err \<Rightarrow> (Inl (rethrow err), calls))"

definition getOperationStatus ::
  "env \<Rightarrow> nat \<Rightarrow> operation \<Rightarrow> (js_error + operation) \<times> event list" where
  "getOperationStatus w i operation =
     (case sdk_getVideosOperation w i of
        Inr operation' \<Rightarrow> (Inr operation', [GetVideosOperation operation])
      | Inl err \<Rightarrow> (Inl (rethrow err), [GetVideosOperation operation]))"

definition fetchVideoBlobUrl :: "env \<Rightarrow> string \<Rightarrow> (js_error + string) \<times> event list" where
  "fetchVideoBlobUrl w uri =
     (let calls = [Fetch (uri @ ''&key='' @ api_key w)]
      in case http_fetch w of
           NetworkError err \<Rightarrow> (Inl err, calls)
         | HttpError status body \<Rightarrow>
             if includesStr body entityNotFound \<or> status = 404
             then (Inl (Error API_KEY_RESET_REQUIRED), calls)
             else (Inl (Error (''Failed to fetch video content: '' @ toDecimal status @ '' '' @ body)),
                   calls)
         | HttpOk blobUrl \<Rightarrow> (Inr blobUrl, calls))"

section \<open>The lifecycle controller (component VideoStudio)\<close>

text \<open>
  The component is present twice with the same control flow and different display texts: in
  \<^verbatim>\<open>src/App.tsx\<close> (lines 45 to 465) and in \<^verbatim>\<open>src/unnamed/part_000\<close>. The texts are
  selected by the variant.
\<close>

datatype variant = AppTsx | Part000

definition stageMessage :: "variant \<Rightarrow> rat \<Rightarrow> string" where
  "stageMessage v stage =
     (case v of
        AppTsx \<Rightarrow>
          (if stage < 2 / 10 then ''Analyzing source details...''
           else if stage < 4 / 10 then ''Calculating motion vectors...''
           else if stage < 6 / 10 then ''Rendering physics...''
           else if stage < 8 / 10 then ''Refining consistency...''
           else ''Applying final color grading...'')
      | Part000 \<Rightarrow>
          (if stage < 2 / 10 then ''Analyzing source image details...''
           else if stage < 4 / 10 then ''Interpolating motion vectors...''
           else if stage < 6 / 10 then ''Rendering physics and light rays...''
           else if stage < 8 / 10 then ''Refining temporal consistency...''
           else ''Applying final color grading...''))"

definition placeholderPrompt :: "variant \<Rightarrow> string" where
  "placeholderPrompt v =
     (case v of AppTsx \<Rightarrow> ''Image-to-Video Animation'' | Part000 \<Rightarrow> ''Image-to-Video Generation'')"

definition noContentMessage :: "variant \<Rightarrow> string" where
  "noContentMessage v =
     (case v of
        AppTsx \<Rightarrow> ''Generation completed but no video content was returned. This can happen if the content was flagged by safety filters.''
      | Part000 \<Rightarrow> ''Video generation completed but no video content was returned. This might be a temporary API issue.'')"

definition quotaMessage :: "variant \<Rightarrow> codeUnits" where
  "quotaMessage v =
     (case v of
        AppTsx \<Rightarrow> units ''API Quota Exceeded. Please check your billing project in Google AI Studio or try again in a few minutes.''
      | Part000 \<Rightarrow> units (''You'' @ [CHR 0x27] @ ''ve exceeded your current API quota. Please check your billing plan or usage limits in the Google AI Studio console.''))"

definition serverFailedMessage :: string where
  "serverFailedMessage = ''The video generation failed on the server.''"

definition noInputMessage :: codeUnits where
  "noInputMessage = units ''Please provide at least a prompt or an image.''"

definition unexpectedMessage :: codeUnits where
  "unexpectedMessage = units ''An unexpected error occurred during generation.''"

text \<open>\<^verbatim>\<open>s.split(',')[1]\<close>: the second comma-separated piece, \<open>None\<close> when there is no comma.\<close>

definition splitSecond :: "string \<Rightarrow> string option" where
  "splitSecond s =
     (let r = dropWhile (\<lambda>c. c \<noteq> CHR '','') s
      in if r = [] then None else Some (takeWhile (\<lambda>c. c \<noteq> CHR '','') (tl r)))"

definition fileToBase64 :: "env \<Rightarrow> js_error + string option" where
  "fileToBase64 w =
     (case fileReader w of
        Inl ev \<Rightarrow> Inl ev
      | Inr dataUrl \<Rightarrow> Inr (splitSecond dataUrl))"

text \<open>
  The poll loop \<^verbatim>\<open>while (!operation.done) { ... }\<close>. It has no bound, so it is a partial
  function: \<open>None\<close> is the run that never leaves the loop. The index counts the polls made.
\<close>

partial_function (option) pollLoop ::
  "variant \<Rightarrow> env \<Rightarrow> nat \<Rightarrow> operation \<Rightarrow> studio \<Rightarrow> event list \<Rightarrow>
   ((js_error + operation) \<times> studio \<times> event list) option" where
  "pollLoop v w i operation t tr =
     (if op_done operation then Some (Inr operation, t, tr)
      else
        (let t1 = t\<lparr>statusMessage := stageMessage v (math_random w i)\<rparr>;
             tr1 = tr @ [SetTimeout 10000]
         in case getOperationStatus w i operation of
              (Inl err, calls) \<Rightarrow> Some (Inl err, t1, tr1 @ calls)
            | (Inr operation', calls) \<Rightarrow> pollLoop v w (Suc i) operation' t1 (tr1 @ calls)))"

declare pollLoop.simps [code]

text \<open>
  The rest of the \<^verbatim>\<open>try\<close> block after the loop. The first component of the result is the
  value thrown, if any. \<open>c\<close> is the state the call closed over, \<open>t\<close> the current state.
\<close>

definition afterPolling ::
  "variant \<Rightarrow> env \<Rightarrow> studio \<Rightarrow> operation \<Rightarrow> studio \<Rightarrow> event list \<Rightarrow>
   js_error option \<times> studio \<times> event list" where
  "afterPolling v w c operation t tr =
     (case op_error operation of
        Some m \<Rightarrow>
          (Some (Error (case m of
                          None \<Rightarrow> serverFailedMessage
                        | Some x \<Rightarrow> if x \<noteq> [] then x else serverFailedMessage)), t, tr)
      | None \<Rightarrow>
          (case op_videoUri operation of
             None \<Rightarrow> (Some (Error (noContentMessage v)), t, tr)
           | Some videoUri \<Rightarrow>
               if videoUri = [] then (Some (Error (noContentMessage v)), t, tr)
               else
                 (let t1 = t\<lparr>statusMessage := ''Finalizing download link...''\<rparr>
                  in case fetchVideoBlobUrl w videoUri of
                       (Inl err, calls) \<Rightarrow> (Some err, t1, tr @ calls)
                     | (Inr blobUrl, calls) \<Rightarrow>
                         (let newVideo =
                                \<lparr> video_id = toDecimal (date_now_id w),
                                  video_url = blobUrl,
                                  video_prompt =
                                    (if prompt c \<noteq> [] then prompt c else placeholderPrompt v),
                                  video_resolution = resolution c,
                                  video_aspectRatio = aspectRatio c,
                                  video_createdAt = date_now_createdAt w \<rparr>
                          in (None,
                              t1\<lparr>history := newVideo # history t1, prompt := [],
                                 selectedImage := None\<rparr>,
                              tr @ calls)))))"

text \<open>The image payload built at the start of the \<^verbatim>\<open>try\<close> block.\<close>

definition prepareImage :: "env \<Rightarrow> studio \<Rightarrow> js_error + ImagePayload option" where
  "prepareImage w c =
     (case selectedImage c of
        None \<Rightarrow> Inr None
      | Some sel \<Rightarrow>
          (case fileToBase64 w of
             Inl ev \<Rightarrow> Inl ev
           | Inr base64Data \<Rightarrow> Inr (Some \<lparr> imageBytes = base64Data, mimeType = file_type sel \<rparr>)))"

definition dreamingMessage :: string where
  "dreamingMessage = ''Model is dreaming... this may take a few minutes.''"

definition tryBlock ::
  "variant \<Rightarrow> env \<Rightarrow> studio \<Rightarrow> studio \<Rightarrow> (js_error option \<times> studio \<times> event list) option" where
  "tryBlock v w c t =
     (case prepareImage w c of
        Inl ev \<Rightarrow> Some (Some ev, t, [])
      | Inr imagePayload \<Rightarrow>
          (case generateVeoVideo w (prompt c) (resolution c) (aspectRatio c) imagePayload of
             (Inl err, calls) \<Rightarrow> Some (Some err, t, calls)
           | (Inr operation, calls) \<Rightarrow>
               (case pollLoop v w 0 operation (t\<lparr>statusMessage := dreamingMessage\<rparr>) calls of
                  None \<Rightarrow> None
                | Some (Inl err, t1, tr) \<Rightarrow> Some (Some err, t1, tr)
                | Some (Inr operation', t1, tr) \<Rightarrow> Some (afterPolling v w c operation' t1 tr))))"

text \<open>
  The \<^verbatim>\<open>catch\<close> block. \<open>unwrapMessage\<close> is its attempt to read a JSON payload:
  \<^verbatim>\<open>JSON.parse(rawMsg)\<close> and, when that succeeds, \<^verbatim>\<open>parsed.error?.message\<close>; a failure of
  either (a syntax error, or the property read on \<^verbatim>\<open>null\<close>) leaves the raw message.
\<close>

definition unwrapMessage :: "string \<Rightarrow> json" where
  "unwrapMessage rawMsg =
     (case JSON_parse rawMsg of
        None \<Rightarrow> JStr (units rawMsg)
      | Some parsed \<Rightarrow>
          if parsed = JNull then JStr (units rawMsg)
          else (case optChain (getProp parsed (units ''error'')) (units ''message'') of
                  None \<Rightarrow> JStr (units rawMsg)
                | Some m \<Rightarrow> if truthy m then m else JStr (units rawMsg)))"

text \<open>
  The test \<^verbatim>\<open>cleanMsg.includes("RESOURCE_EXHAUSTED") || cleanMsg.includes("429") || cleanMsg.toLowerCase().includes("quota")\<close>.
  \<open>None\<close> is the \<^verbatim>\<open>TypeError\<close> of calling a method the value does not have: a string
  has both methods, an array has \<^verbatim>\<open>includes\<close> (membership) only, other values have neither.
\<close>

definition isQuotaError :: "json \<Rightarrow> bool option" where
  "isQuotaError cleanMsg =
     (case cleanMsg of
        JStr m \<Rightarrow>
          Some (includesStr m (units ''RESOURCE_EXHAUSTED'') \<or> includesStr m (units ''429'')
                \<or> includesStr (toLowerCase m) (map Some (units ''quota'')))
      | JArr vs \<Rightarrow>
          if JStr (units ''RESOURCE_EXHAUSTED'') \<in> set vs \<or> JStr (units ''429'') \<in> set vs
          then Some True else None
      | _ \<Rightarrow> None)"

text \<open>How a call of \<^verbatim>\<open>startGeneration\<close> ends: it returns, or an exception leaves it.\<close>

datatype completion = Returned | Uncaught

definition catchBlock ::
  "variant \<Rightarrow> js_error \<Rightarrow> studio \<Rightarrow> event list \<Rightarrow> completion \<times> studio \<times> event list" where
  "catchBlock v err t tr =
     (let rawMsg = (case err_message err of None \<Rightarrow> [] | Some m \<Rightarrow> m);
          cleanMsg = unwrapMessage rawMsg
      in case isQuotaError cleanMsg of
           None \<Rightarrow> (Uncaught, t, tr)
         | Some quota \<Rightarrow>
             if rawMsg = API_KEY_RESET_REQUIRED
             then (Returned, t\<lparr>error := None\<rparr>, tr @ [OnKeyReset])
             else if quota
             then (Returned,
                   t\<lparr>error := Some \<lparr> message = quotaMessage v, isQuota = True \<rparr>\<rparr>, tr)
             else (Returned,
                   t\<lparr>error := Some \<lparr> message =
                                       (case cleanMsg of
                                          JStr m \<Rightarrow> if m \<noteq> [] then m else unexpectedMessage
                                        | _ \<Rightarrow> unexpectedMessage),
                                     isQuota = False \<rparr>\<rparr>, tr))"

definition finallyBlock :: "studio \<Rightarrow> studio" where
  "finallyBlock t = t\<lparr>isGenerating := False, statusMessage := []\<rparr>"

text \<open>
  \<^verbatim>\<open>startGeneration\<close>: the state at the call, the answers of the outside world; the result is
  how the call ends, the state it leaves and the calls it made, or \<open>None\<close> when it never ends.
  \<open>beginGeneration\<close> is what the call does before its first \<^verbatim>\<open>await\<close>, and
  \<open>resumeGeneration\<close> the rest: the \<^verbatim>\<open>try\<close> block with its \<^verbatim>\<open>catch\<close> and \<^verbatim>\<open>finally\<close>, on
  the state \<open>c\<close> the call closed over and the current state \<open>t\<close>.
\<close>

definition beginGeneration :: "studio \<Rightarrow> studio" where
  "beginGeneration s =
     s\<lparr>isGenerating := True, error := None, statusMessage := ''Preparing cinematic assets...''\<rparr>"

definition resumeGeneration ::
  "variant \<Rightarrow> env \<Rightarrow> studio \<Rightarrow> studio \<Rightarrow> (completion \<times> studio \<times> event list) option" where
  "resumeGeneration v w c t =
     (case tryBlock v w c t of
        None \<Rightarrow> None
      | Some (None, t1, tr) \<Rightarrow> Some (Returned, finallyBlock t1, tr)
      | Some (Some err, t1, tr) \<Rightarrow>
          (case catchBlock v err t1 tr of
             (cmp, t2, tr2) \<Rightarrow> Some (cmp, finallyBlock t2, tr2)))"

definition startGeneration ::
  "variant \<Rightarrow> env \<Rightarrow> studio \<Rightarrow> (completion \<times> studio \<times> event list) option" where
  "startGeneration v w s =
     (if trim (prompt s) = [] \<and> selectedImage s = None
      then Some (Returned,
                 s\<lparr>error := Some \<lparr> message = noInputMessage, isQuota = False \<rparr>\<rparr>, [])
      else resumeGeneration v w s (beginGeneration s))"

text \<open>
  The second copy of the component in \<^verbatim>\<open>src/App.tsx\<close> (lines 466 to 877) unwraps messages with
  a function of its own, \<^verbatim>\<open>parseErrorMessage\<close>. \<open>matchBraces\<close> is \<^verbatim>\<open>msg.match(/\{.*\}/)\<close>: the
  leftmost opening brace that has a closing brace after it on the same line, up to the last
  closing brace of that line.
\<close>

definition isLineTerminator :: "char \<Rightarrow> bool" where
  "isLineTerminator c \<longleftrightarrow> c = CHR 0x0A \<or> c = CHR 0x0D"

fun matchBraces :: "string \<Rightarrow> string option" where
  "matchBraces [] = None"
| "matchBraces (c # cs) =
     (if c = CHR ''{'' then
        (let line = takeWhile (\<lambda>x. \<not> isLineTerminator x) cs
         in if CHR ''}'' \<in> set line
            then Some (CHR ''{'' # rev (dropWhile (\<lambda>x. x \<noteq> CHR ''}'') (rev line)))
            else matchBraces cs)
      else matchBraces cs)"

definition parseErrorMessage :: "js_error \<Rightarrow> json" where
  "parseErrorMessage err =
     (let msg = (case err_message err of
                   None \<Rightarrow> err_string err
                 | Some m \<Rightarrow> if m \<noteq> [] then m else err_string err)
      in case matchBraces msg of
           None \<Rightarrow> JStr (units msg)
         | Some jsonMatch \<Rightarrow>
             (case JSON_parse jsonMatch of
                None \<Rightarrow> JStr (units msg)
              | Some parsed \<Rightarrow>
                  if parsed = JNull then JStr (units msg)
                  else
                    (case optChain (getProp parsed (units ''error'')) (units ''message'') of
                       Some m \<Rightarrow>
                         if truthy m then m
                         else (case getProp parsed (units ''message'') of
                                 Some m' \<Rightarrow> if truthy m' then m' else JStr (units msg)
                               | None \<Rightarrow> JStr (units msg))
                     | None \<Rightarrow>
                         (case getProp parsed (units ''message'') of
                            Some m' \<Rightarrow> if truthy m' then m' else JStr (units msg)
                          | None \<Rightarrow> JStr (units msg)))))"

definition removeVideo :: "string \<Rightarrow> GeneratedVideo list \<Rightarrow> GeneratedVideo list \<times> event list" where
  "removeVideo ident prev =
     (let video = find (\<lambda>v. video_id v = ident) prev
      in (filter (\<lambda>v. video_id v \<noteq> ident) prev,
          (case video of None \<Rightarrow> [] | Some v \<Rightarrow> [RevokeObjectURL (video_url v)])))"

section \<open>The page: user events and calls in flight\<close>

text \<open>
  The component between events. \<open>ui\<close> holds the current values of the state cells. \<open>view\<close>
  holds their values at the last render: the attributes and the handlers on screen were
  built from these, so a handler reads \<^verbatim>\<open>prompt\<close>, \<^verbatim>\<open>selectedImage\<close>, \<^verbatim>\<open>resolution\<close> and
  \<^verbatim>\<open>aspectRatio\<close> from \<open>view\<close>, and writes to \<open>ui\<close>. \<open>reading\<close> lists the files whose
  reading by \<^verbatim>\<open>handleImageSelect\<close> has begun and not ended, \<open>inFlight\<close> the calls of
  \<open>startGeneration\<close> that have begun and not ended (each with the answers the outside world
  will give it and the state it closed over), and \<open>callLog\<close> the calls made to the outside by
  the calls that have ended and by \<open>removeVideo\<close>.
\<close>

record page =
  ui :: studio
  view :: studio
  reading :: "SelectedImage list"
  inFlight :: "(env \<times> studio) list"
  callLog :: "event list"

definition initialStudio :: studio where
  "initialStudio =
     \<lparr> prompt = [], resolution = R720p, aspectRatio = A16x9, isGenerating = False,
       statusMessage = [], history = [], error = None, selectedImage = None \<rparr>"

definition initialPage :: page where
  "initialPage =
     \<lparr> ui = initialStudio, view = initialStudio, reading = [], inFlight = [], callLog = [] \<rparr>"

text \<open>The \<^verbatim>\<open>disabled\<close> attribute of the submit button, computed at a render.\<close>

definition submitDisabled :: "studio \<Rightarrow> bool" where
  "submitDisabled s \<longleftrightarrow> isGenerating s \<or> (trim (prompt s) = [] \<and> selectedImage s = None)"

definition invalidImageMessage :: codeUnits where
  "invalidImageMessage = units ''Please select a valid image file.''"

text \<open>
  \<^verbatim>\<open>handleImageSelect\<close> on a chosen file (its type, and the data URL that reading it gives): a
  file that is not an image leaves an error; the reading of an image is begun, and the
  selection is set when the reading ends.
\<close>

definition handleImageSelect :: "SelectedImage \<Rightarrow> page \<Rightarrow> page" where
  "handleImageSelect sel pg =
     (if take 6 (file_type sel) \<noteq> ''image/''
      then pg\<lparr>ui := (ui pg)\<lparr>error := Some \<lparr> message = invalidImageMessage, isQuota = False \<rparr>\<rparr>\<rparr>
      else pg\<lparr>reading := reading pg @ [sel]\<rparr>)"

text \<open>
  The events: a render, a click on the submit button, a status text written by the call in
  flight at a position, the end of that call, a click on the delete button of an entry, the
  edits of the inputs, the choice of a file and the end of the reading at a position. What is
  on screen is what the last render put there: the submit button carries the \<^verbatim>\<open>disabled\<close>
  attribute computed then; the prompt box and the resolution and aspect ratio buttons are
  disabled when \<open>isGenerating\<close> held then; there is a delete button for each entry of the
  history rendered then; the upload area is there when no image was selected then, and the
  clear button when one was.
\<close>

datatype action =
    Render
  | ClickGenerate env
  | StatusWritten nat string
  | RunEnds nat
  | ClickRemove string
  | TypePrompt string
  | PickResolution Resolution
  | PickAspectRatio AspectRatio
  | PickImage SelectedImage
  | ImageRead nat
  | ClickClearImage

text \<open>
  A click on the submit button does nothing when the button on screen is disabled; otherwise
  it calls the \<open>startGeneration\<close> of the last render, which runs up to its first \<^verbatim>\<open>await\<close>:
  \<open>startGeneration\<close> itself tests the prompt and the image it closed over, and does not test
  \<open>isGenerating\<close>. Between its first \<^verbatim>\<open>await\<close> and its last, a call writes nothing but the
  status text; the page lets a call in flight write any status text at any time. After its
  last \<^verbatim>\<open>await\<close> a call runs to its end without interruption: \<open>RunEnds\<close> applies what
  \<open>resumeGeneration\<close> does to the state as it is then (the history is written with
  \<^verbatim>\<open>setHistory(prev => ...)\<close>, the other cells are overwritten), and records the calls that the
  call has made.
\<close>

fun step :: "variant \<Rightarrow> action \<Rightarrow> page \<Rightarrow> page" where
  "step v Render pg = pg\<lparr>view := ui pg\<rparr>"
| "step v (ClickGenerate w) pg =
     (if submitDisabled (view pg) then pg
      else if trim (prompt (view pg)) = [] \<and> selectedImage (view pg) = None
      then pg\<lparr>ui := (ui pg)\<lparr>error := Some \<lparr> message = noInputMessage, isQuota = False \<rparr>\<rparr>\<rparr>
      else pg\<lparr>ui := beginGeneration (ui pg), inFlight := inFlight pg @ [(w, view pg)]\<rparr>)"
| "step v (StatusWritten k m) pg =
     (if k < length (inFlight pg) then pg\<lparr>ui := (ui pg)\<lparr>statusMessage := m\<rparr>\<rparr> else pg)"
| "step v (RunEnds k) pg =
     (if k < length (inFlight pg) then
        (case inFlight pg ! k of
           (w, c) \<Rightarrow>
             (case resumeGeneration v w c (ui pg) of
                None \<Rightarrow> pg
              | Some (cmp, t, tr) \<Rightarrow>
                  pg\<lparr>ui := t, inFlight := take k (inFlight pg) @ drop (Suc k) (inFlight pg),
                     callLog := callLog pg @ tr\<rparr>))
      else pg)"
| "step v (ClickRemove ident) pg =
     (if ident \<notin> set (map video_id (history (view pg))) then pg
      else (case removeVideo ident (history (ui pg)) of
              (h, tr) \<Rightarrow> pg\<lparr>ui := (ui pg)\<lparr>history := h\<rparr>, callLog := callLog pg @ tr\<rparr>))"
| "step v (TypePrompt p) pg =
     (if isGenerating (view pg) then pg else pg\<lparr>ui := (ui pg)\<lparr>prompt := p\<rparr>\<rparr>)"
| "step v (PickResolution r) pg =
     (if isGenerating (view pg) then pg else pg\<lparr>ui := (ui pg)\<lparr>resolution := r\<rparr>\<rparr>)"
| "step v (PickAspectRatio a) pg =
     (if isGenerating (view pg) then pg else pg\<lparr>ui := (ui pg)\<lparr>aspectRatio := a\<rparr>\<rparr>)"
| "step v (PickImage sel) pg =
     (if selectedImage (view pg) \<noteq> None then pg else handleImageSelect sel pg)"
| "step v (ImageRead k) pg =
     (if k < length (reading pg)
      then pg\<lparr>ui := (ui pg)\<lparr>selectedImage := Some (reading pg ! k)\<rparr>,
              reading := take k (reading pg) @ drop (Suc k) (reading pg)\<rparr>
      else pg)"
| "step v ClickClearImage pg =
     (if selectedImage (view pg) = None then pg else pg\<lparr>ui := (ui pg)\<lparr>selectedImage := None\<rparr>\<rparr>)"



text \<open>
  The pages that the component can be in when every click on the submit button comes after a
  render of the state as it is.
\<close>

inductive reachableRendered :: "variant \<Rightarrow> page \<Rightarrow> bool" for v :: variant where
  start: "reachableRendered v initialPage"
| click: "reachableRendered v pg \<Longrightarrow> view pg = ui pg \<Longrightarrow>
          reachableRendered v (step v (ClickGenerate w) pg)"
| other: "reachableRendered v pg \<Longrightarrow> (\<forall>w. a \<noteq> ClickGenerate w) \<Longrightarrow>
          reachableRendered v (step v a pg)"

section \<open>Describing a run\<close>

text \<open>
  The notions below are used to state what a run does; they are read off the answers of the
  outside world. \<open>polled w op0 k\<close> is the operation the loop holds after \<open>k\<close> polls, and
  \<open>stillPolling w op0 n\<close> says that the loop condition holds again after \<open>n\<close> polls: the
  submitted operation is not done, and each of the first \<open>n\<close> polls returned an operation that
  is not done.
\<close>

fun polled :: "env \<Rightarrow> operation \<Rightarrow> nat \<Rightarrow> operation" where
  "polled w op0 0 = op0"
| "polled w op0 (Suc k) =
     (case sdk_getVideosOperation w k of Inr operation \<Rightarrow> operation | Inl err \<Rightarrow> polled w op0 k)"

fun stillPolling :: "env \<Rightarrow> operation \<Rightarrow> nat \<Rightarrow> bool" where
  "stillPolling w op0 0 = (\<not> op_done op0)"
| "stillPolling w op0 (Suc n) =
     (stillPolling w op0 n \<and>
      (case sdk_getVideosOperation w n of Inr operation \<Rightarrow> \<not> op_done operation | Inl err \<Rightarrow> False))"

text \<open>The calls of the first \<open>n\<close> rounds of the loop: a wait of 10000 ms, then a poll.\<close>

fun pollCalls :: "env \<Rightarrow> operation \<Rightarrow> nat \<Rightarrow> event list" where
  "pollCalls w op0 0 = []"
| "pollCalls w op0 (Suc n) =
     pollCalls w op0 n @ [SetTimeout 10000, GetVideosOperation (polled w op0 n)]"

text \<open>The state after \<open>n\<close> rounds of the loop: only the status text has changed.\<close>

fun statusAfter :: "variant \<Rightarrow> env \<Rightarrow> studio \<Rightarrow> nat \<Rightarrow> studio" where
  "statusAfter v w t 0 = t"
| "statusAfter v w t (Suc n) = t\<lparr>statusMessage := stageMessage v (math_random w n)\<rparr>"

text \<open>
  The submitted job is accepted with operation \<open>op0\<close> and the service reports it done, as
  \<open>final\<close>, after exactly \<open>n\<close> polls (none when the submitted operation is done already).
\<close>

definition jobCompletes :: "env \<Rightarrow> operation \<Rightarrow> nat \<Rightarrow> operation \<Rightarrow> bool" where
  "jobCompletes w op0 n final \<longleftrightarrow>
     sdk_generateVideos w = Inr op0 \<and> op_done final \<and>
     (case n of
        0 \<Rightarrow> final = op0
      | Suc m \<Rightarrow> stillPolling w op0 m \<and> sdk_getVideosOperation w m = Inr final)"

text \<open>The reference image, if one is selected, is read without error.\<close>

definition imageReadable :: "env \<Rightarrow> studio \<Rightarrow> bool" where
  "imageReadable w s \<longleftrightarrow>
     (case selectedImage s of
        None \<Rightarrow> True
      | Some sel \<Rightarrow> (case fileReader w of Inr dataUrl \<Rightarrow> True | Inl ev \<Rightarrow> False))"

text \<open>The image payload sent with the request.\<close>

definition imagePayloadOf :: "env \<Rightarrow> studio \<Rightarrow> ImagePayload option" where
  "imagePayloadOf w s =
     (case selectedImage s of
        None \<Rightarrow> None
      | Some sel \<Rightarrow>
          Some \<lparr> imageBytes = (case fileReader w of Inr dataUrl \<Rightarrow> splitSecond dataUrl | Inl ev \<Rightarrow> None),
                 mimeType = file_type sel \<rparr>)"

text \<open>The request is not the empty one that \<open>startGeneration\<close> turns away.\<close>

definition hasInput :: "studio \<Rightarrow> bool" where
  "hasInput s \<longleftrightarrow> trim (prompt s) \<noteq> [] \<or> selectedImage s \<noteq> None"

text \<open>The entry that a successful run records.\<close>

definition recordedVideo :: "variant \<Rightarrow> env \<Rightarrow> studio \<Rightarrow> string \<Rightarrow> GeneratedVideo" where
  "recordedVideo v w s blobUrl =
     \<lparr> video_id = toDecimal (date_now_id w), video_url = blobUrl,
       video_prompt = (if prompt s \<noteq> [] then prompt s else placeholderPrompt v),
       video_resolution = resolution s, video_aspectRatio = aspectRatio s,
       video_createdAt = date_now_createdAt w \<rparr>"

text \<open>
  An SDK call is rejected with a message that contains "Requested entity was not found";
  the download is answered by an error response whose body contains it.
\<close>

definition rejectsNotFound :: "js_error + operation \<Rightarrow> bool" where
  "rejectsNotFound r =
     (case r of
        Inl err \<Rightarrow> (case err_message err of None \<Rightarrow> False | Some m \<Rightarrow> includesStr m entityNotFound)
      | Inr operation \<Rightarrow> False)"

definition respondsNotFound :: "http_response \<Rightarrow> bool" where
  "respondsNotFound r =
     (case r of
        HttpError status body \<Rightarrow> includesStr body entityNotFound
      | _ \<Rightarrow> False)"


text \<open>Projections of the result of a run.\<close>

definition completionOf :: "(completion \<times> studio \<times> event list) option \<Rightarrow> completion option" where
  "completionOf r = map_option fst r"

definition stateOf :: "(completion \<times> studio \<times> event list) option \<Rightarrow> studio option" where
  "stateOf r = map_option (fst \<circ> snd) r"

section \<open>Sample data\<close>

text \<open>Concrete states, answers and messages on which the results below are exercised.\<close>

definition quoted :: "string \<Rightarrow> string" where
  "quoted x = CHR 0x22 # x @ [CHR 0x22]"

text \<open>The JSON text \<^verbatim>\<open>{"error":{"message":"x"}}\<close> and the message \<^verbatim>\<open>Error: {"error":{"message":"x"}}\<close>.\<close>

definition errorPayload :: "string \<Rightarrow> string" where
  "errorPayload x = ''{'' @ quoted ''error'' @ '':{'' @ quoted ''message'' @ '':'' @ quoted x @ ''}}''"

definition embeddedError :: "string \<Rightarrow> string" where
  "embeddedError x = ''Error: '' @ errorPayload x"

text \<open>The JSON text \<^verbatim>\<open>{"error":{"message":429}}\<close>.\<close>

definition numericPayload :: string where
  "numericPayload = ''{'' @ quoted ''error'' @ '':{'' @ quoted ''message'' @ '':429}}''"

definition serviceError :: "string \<Rightarrow> js_error" where
  "serviceError m = \<lparr> err_message = Some m, err_json = ''{}'', err_string = ''ApiError: '' @ m \<rparr>"

definition pendingOperation :: operation where
  "pendingOperation = \<lparr> op_done = False, op_error = None, op_videoUri = None \<rparr>"

definition finishedOperation :: "string option option \<Rightarrow> string option \<Rightarrow> operation" where
  "finishedOperation e u = \<lparr> op_done = True, op_error = e, op_videoUri = u \<rparr>"

definition sampleVideo :: GeneratedVideo where
  "sampleVideo = \<lparr> video_id = ''1699999999999'', video_url = ''blob:earlier'',
                    video_prompt = ''A lighthouse at dusk'', video_resolution = R720p,
                    video_aspectRatio = A16x9, video_createdAt = 1699999999999 \<rparr>"

definition sampleImage :: SelectedImage where
  "sampleImage = \<lparr> file_type = ''image/png'', preview = ''data:image/png;base64,QUJD'' \<rparr>"

definition sampleStudio :: "string \<Rightarrow> SelectedImage option \<Rightarrow> studio" where
  "sampleStudio p sel =
     \<lparr> prompt = p, resolution = R1080p, aspectRatio = A9x16, isGenerating = False,
       statusMessage = [], history = [sampleVideo], error = None, selectedImage = sel \<rparr>"

definition sampleWorld ::
  "(js_error + operation) \<Rightarrow> (nat \<Rightarrow> js_error + operation) \<Rightarrow> http_response \<Rightarrow> env" where
  "sampleWorld submitted polls response =
     \<lparr> fileReader = Inr ''data:image/png;base64,QUJD'',
       sdk_generateVideos = submitted,
       sdk_getVideosOperation = polls,
       http_fetch = response,
       math_random = (\<lambda>i. 1 / 2),
       date_now_id = 1700000000000,
       date_now_createdAt = 1700000000001,
       api_key = ''KEY'' \<rparr>"

text \<open>Polls that report the operation pending \<open>n\<close> times and then give the answer \<open>r\<close>.\<close>

definition pollsThen :: "nat \<Rightarrow> (js_error + operation) \<Rightarrow> nat \<Rightarrow> js_error + operation" where
  "pollsThen n r i = (if i < n then Inr pendingOperation else r)"

definition videoUri :: string where
  "videoUri = ''https://host/files/video?alt=media''"

text \<open>A job that is reported done, with a result, by the third poll; the download succeeds.\<close>

definition completingWorld :: env where
  "completingWorld =
     sampleWorld (Inr pendingOperation)
       (pollsThen 2 (Inr (finishedOperation None (Some videoUri)))) (HttpOk ''blob:new'')"

text \<open>A job that is reported done by the second poll with neither an error nor a result.\<close>

definition emptyResultWorld :: env where
  "emptyResultWorld =
     sampleWorld (Inr pendingOperation)
       (pollsThen 1 (Inr (finishedOperation None None))) (HttpOk ''blob:new'')"

text \<open>A job that is reported done by the second poll with an error and no result.\<close>

definition failedJobWorld :: env where
  "failedJobWorld =
     sampleWorld (Inr pendingOperation)
       (pollsThen 1 (Inr (finishedOperation (Some (Some ''Internal error encountered.'')) None)))
       (HttpOk ''blob:new'')"

text \<open>A message that carries quota markers and the not-found marker at once.\<close>

definition mixedMessage :: string where
  "mixedMessage = ''429 RESOURCE_EXHAUSTED: quota exceeded. Requested entity was not found.''"

definition submitNotFoundWorld :: env where
  "submitNotFoundWorld =
     sampleWorld (Inl (serviceError mixedMessage)) (pollsThen 0 (Inr pendingOperation))
       (HttpOk ''blob:new'')"

definition pollNotFoundWorld :: env where
  "pollNotFoundWorld =
     sampleWorld (Inr pendingOperation) (pollsThen 1 (Inl (serviceError mixedMessage)))
       (HttpOk ''blob:new'')"

definition fetchNotFoundWorld :: env where
  "fetchNotFoundWorld =
     sampleWorld (Inr pendingOperation)
       (pollsThen 2 (Inr (finishedOperation None (Some videoUri)))) (HttpError 403 mixedMessage)"

text \<open>A service that reports the job pending at every poll.\<close>

definition pendingForeverWorld :: env where
  "pendingForeverWorld =
     sampleWorld (Inr pendingOperation) (\<lambda>i. Inr pendingOperation) (HttpOk ''blob:new'')"

definition otherVideo :: GeneratedVideo where
  "otherVideo = \<lparr> video_id = ''1699999000000'', video_url = ''blob:oldest'',
                   video_prompt = ''Rain on a tin roof'', video_resolution = R1080p,
                   video_aspectRatio = A9x16, video_createdAt = 1699999000000 \<rparr>"

text \<open>The JSON text \<^verbatim>\<open>{"message":"x"}\<close>.\<close>

definition messagePayload :: "string \<Rightarrow> string" where
  "messagePayload x = ''{'' @ quoted ''message'' @ '':'' @ quoted x @ ''}''"

text \<open>The submission is rejected with the given message.\<close>

definition rejectingWorld :: "string \<Rightarrow> env" where
  "rejectingWorld m =
     sampleWorld (Inl (serviceError m)) (pollsThen 0 (Inr pendingOperation)) (HttpOk ''blob:new'')"






section \<open>Facts about the string primitives\<close>

lemma includesStr_iff: "includesStr s sub \<longleftrightarrow> (\<exists>p q. s = p @ sub @ q)"
proof (induction s)
  case Nil
  then show ?case by auto
next
  case (Cons c cs)
  show ?case
  proof
    assume "includesStr (c # cs) sub"
    then consider "take (length sub) (c # cs) = sub" | "includesStr cs sub" by auto
    then show "\<exists>p q. c # cs = p @ sub @ q"
    proof cases
      case 1
      then have "c # cs = [] @ sub @ drop (length sub) (c # cs)"
        by (metis append_Nil append_take_drop_id)
      then show ?thesis by blast
    next
      case 2
      then obtain p q where "cs = p @ sub @ q" using Cons.IH by blast
      then have "c # cs = (c # p) @ sub @ q" by simp
      then show ?thesis by blast
    qed
  next
    assume "\<exists>p q. c # cs = p @ sub @ q"
    then obtain p q where pq: "c # cs = p @ sub @ q" by blast
    show "includesStr (c # cs) sub"
    proof (cases p)
      case Nil
      then have "take (length sub) (c # cs) = sub" using pq by simp
      then show ?thesis by simp
    next
      case (Cons a p')
      then have "cs = p' @ sub @ q" using pq by simp
      then have "includesStr cs sub" using Cons.IH by blast
      then show ?thesis by simp
    qed
  qed
qed

lemma units_Nil_iff: "units s = [] \<longleftrightarrow> s = []"
  by (simp add: units_def)

lemma units_inject: "units a = units b \<longleftrightarrow> a = b"
proof
  assume "units a = units b"
  then have "map (of_char :: char \<Rightarrow> int) a = map of_char b" by (simp add: units_def)
  moreover have "inj (of_char :: char \<Rightarrow> int)" by (rule injI) simp
  ultimately show "a = b" by (simp add: inj_map_eq_map)
next
  assume "a = b"
  then show "units a = units b" by simp
qed

lemma trim_empty_iff: "trim p = [] \<longleftrightarrow> (\<forall>c \<in> set p. isWhiteSpace c)"
proof
  assume "trim p = []"
  then have "dropWhile isWhiteSpace (rev (dropWhile isWhiteSpace p)) = []"
    by (simp add: trim_def)
  then have "\<forall>c \<in> set (dropWhile isWhiteSpace p). isWhiteSpace c"
    by (simp add: dropWhile_eq_Nil_conv)
  moreover have "dropWhile isWhiteSpace p = [] \<or> \<not> isWhiteSpace (hd (dropWhile isWhiteSpace p))"
    by (metis hd_dropWhile)
  ultimately have "dropWhile isWhiteSpace p = []"
    by (metis hd_in_set)
  then show "\<forall>c \<in> set p. isWhiteSpace c"
    by (simp add: dropWhile_eq_Nil_conv)
next
  assume "\<forall>c \<in> set p. isWhiteSpace c"
  then have "dropWhile isWhiteSpace p = []"
    by (simp add: dropWhile_eq_Nil_conv)
  then have "trim p = rev (dropWhile isWhiteSpace (rev []))"
    unfolding trim_def by (rule arg_cong)
  then show "trim p = []" by simp
qed

section \<open>The bound of the JSON parser\<close>

text \<open>
  More calls never change a successful parse, and a successful parse of a value, an element
  list or a member list needs no more calls than the number of characters it consumes.
\<close>

lemmas parse_simps = parseValue.simps parseElements.simps parseMembers.simps

lemma parse_fuel_Suc:
  "(\<forall>cs r. parseValue n cs = Some r \<longrightarrow> parseValue (Suc n) cs = Some r)
   \<and> (\<forall>cs es. parseElements n cs = Some es \<longrightarrow> parseElements (Suc n) cs = Some es)
   \<and> (\<forall>cs ms. parseMembers n cs = Some ms \<longrightarrow> parseMembers (Suc n) cs = Some ms)"
proof (induction n)
  case 0
  show ?case by simp
next
  case (Suc n)
  have IHv: "\<And>cs r. parseValue n cs = Some r \<Longrightarrow> parseValue (Suc n) cs = Some r"
    and IHe: "\<And>cs es. parseElements n cs = Some es \<Longrightarrow> parseElements (Suc n) cs = Some es"
    and IHm: "\<And>cs ms. parseMembers n cs = Some ms \<Longrightarrow> parseMembers (Suc n) cs = Some ms"
    using Suc.IH by blast+
  have v: "parseValue (Suc (Suc n)) cs = Some r" if a: "parseValue (Suc n) cs = Some r" for cs r
  proof (cases cs)
    case Nil
    then show ?thesis using a by simp
  next
    case (Cons c rest)
    show ?thesis
    proof (cases "c = CHR ''{''")
      case obj: True
      show ?thesis
      proof (cases "skipWs rest \<noteq> [] \<and> hd (skipWs rest) = CHR ''}''")
        case True
        then show ?thesis
          using a Cons obj
          by (subst parseValue.simps(2)) (simp add: Let_def del: parse_simps, simp add: Let_def)
      next
        case False
        then obtain kvs r2 where pm: "parseMembers n (skipWs rest) = Some (kvs, r2)"
          and r: "r = (JObj kvs, r2)"
          using a Cons obj by (auto simp: Let_def split: option.splits)
        have "parseMembers (Suc n) (skipWs rest) = Some (kvs, r2)" using pm by (rule IHm)
        then show ?thesis
          using Cons obj False r
          by (subst parseValue.simps(2)) (auto simp add: Let_def simp del: parse_simps)
      qed
    next
      case nobj: False
      show ?thesis
      proof (cases "c = CHR ''[''")
        case arr: True
        show ?thesis
        proof (cases "skipWs rest \<noteq> [] \<and> hd (skipWs rest) = CHR '']''")
          case True
          then show ?thesis
            using a Cons arr
            by (subst parseValue.simps(2)) (simp add: Let_def del: parse_simps, simp add: Let_def)
        next
          case False
          then obtain vs r2 where pe: "parseElements n (skipWs rest) = Some (vs, r2)"
            and r: "r = (JArr vs, r2)"
            using a Cons arr by (auto simp: Let_def split: option.splits)
          have "parseElements (Suc n) (skipWs rest) = Some (vs, r2)" using pe by (rule IHe)
          then show ?thesis
            using Cons arr False r
            by (subst parseValue.simps(2)) (auto simp add: Let_def simp del: parse_simps)
        qed
      next
        case False
        define body where "body =
          (if c = CHR 0x22 then
             (case parseString rest of None \<Rightarrow> None | Some (s, r1) \<Rightarrow> Some (JStr s, r1))
           else if c = CHR ''-'' \<or> isDigit c then parseNumber cs
           else parseLiteral cs)"
        have eq: "parseValue (Suc k) cs = body" for k
          using Cons nobj False unfolding body_def
          by (subst parseValue.simps(2)) (simp del: parse_simps(2,4,6))
        have "parseValue (Suc (Suc n)) cs = parseValue (Suc n) cs" by (simp only: eq)
        then show ?thesis using a by (simp only:)
      qed
    qed
  qed
  have e: "parseElements (Suc (Suc n)) cs = Some es" if a: "parseElements (Suc n) cs = Some es" for cs es
  proof -
    from a obtain x r where pv: "parseValue n cs = Some (x, r)"
      by (auto split: option.splits)
    have pv': "parseValue (Suc n) cs = Some (x, r)" using pv by (rule IHv)
    from a pv obtain c r1 where sk: "skipWs r = c # r1"
      by (auto split: list.splits)
    show ?thesis
    proof (cases "c = CHR '','' \<and> c \<noteq> CHR '']''")
      case False
      then have "(if c = CHR '']'' then Some ([x], r1) else None) = Some es"
        using a pv sk by (auto split: if_splits)
      then show ?thesis
        using pv' sk False
        by (subst parseElements.simps(2)) (auto simp del: parse_simps split: if_splits)
    next
      case True
      then obtain vs r2 where pe: "parseElements n (skipWs r1) = Some (vs, r2)"
        and es: "es = (x # vs, r2)"
        using a pv sk by (auto split: option.splits)
      have "parseElements (Suc n) (skipWs r1) = Some (vs, r2)" using pe by (rule IHe)
      then show ?thesis
        using pv' sk True es
        by (subst parseElements.simps(2)) (simp del: parse_simps)
    qed
  qed
  have m: "parseMembers (Suc (Suc n)) cs = Some ms" if a: "parseMembers (Suc n) cs = Some ms" for cs ms
  proof -
    from a obtain r where cs: "cs = CHR 0x22 # r"
      by (cases cs) (auto split: if_splits)
    from a cs obtain k r1 where ps: "parseString r = Some (k, r1)"
      by (auto split: option.splits)
    from a cs ps obtain r2 where sk1: "skipWs r1 = CHR '':'' # r2"
      by (auto split: list.splits if_splits)
    from a cs ps sk1 obtain x r3 where pv: "parseValue n (skipWs r2) = Some (x, r3)"
      by (auto split: option.splits)
    have pv': "parseValue (Suc n) (skipWs r2) = Some (x, r3)" using pv by (rule IHv)
    from a cs ps sk1 pv obtain c3 r4 where sk3: "skipWs r3 = c3 # r4"
      by (auto split: list.splits)
    show ?thesis
    proof (cases "c3 = CHR '','' \<and> c3 \<noteq> CHR ''}''")
      case False
      then have "(if c3 = CHR ''}'' then Some ([(k, x)], r4) else None) = Some ms"
        using a cs ps sk1 pv sk3 by (auto split: if_splits)
      then show ?thesis
        using cs ps sk1 pv' sk3 False
        by (subst parseMembers.simps(2)) (auto simp del: parse_simps split: if_splits)
    next
      case True
      then obtain kvs r5 where pm: "parseMembers n (skipWs r4) = Some (kvs, r5)"
        and ms: "ms = ((k, x) # kvs, r5)"
        using a cs ps sk1 pv sk3 by (auto split: option.splits)
      have "parseMembers (Suc n) (skipWs r4) = Some (kvs, r5)" using pm by (rule IHm)
      then show ?thesis
        using cs ps sk1 pv' sk3 True ms
        by (subst parseMembers.simps(2)) (simp del: parse_simps)
    qed
  qed
  show ?case using v e m by blast
qed


lemma parse_fuel_add:
  "parseValue m cs = Some r \<Longrightarrow> parseValue (m + k) cs = Some r"
  "parseElements m cs = Some es \<Longrightarrow> parseElements (m + k) cs = Some es"
  "parseMembers m cs = Some ms \<Longrightarrow> parseMembers (m + k) cs = Some ms"
proof (induction k)
  case 0
  { case 1 then show ?case by (simp only: add_0_right) }
  { case 2 then show ?case by (simp only: add_0_right) }
  { case 3 then show ?case by (simp only: add_0_right) }
next
  case (Suc k)
  { case 1
    then have "parseValue (m + k) cs = Some r" by (rule Suc(1))
    then have "parseValue (Suc (m + k)) cs = Some r" using parse_fuel_Suc [of "m + k"] by blast
    then show ?case by (simp only: add_Suc_right) }
  { case 2
    then have "parseElements (m + k) cs = Some es" by (rule Suc(2))
    then have "parseElements (Suc (m + k)) cs = Some es" using parse_fuel_Suc [of "m + k"] by blast
    then show ?case by (simp only: add_Suc_right) }
  { case 3
    then have "parseMembers (m + k) cs = Some ms" by (rule Suc(3))
    then have "parseMembers (Suc (m + k)) cs = Some ms" using parse_fuel_Suc [of "m + k"] by blast
    then show ?case by (simp only: add_Suc_right) }
qed

lemma parse_fuel_le:
  assumes "m \<le> n"
  shows "parseValue m cs = Some r \<Longrightarrow> parseValue n cs = Some r"
    and "parseElements m cs = Some es \<Longrightarrow> parseElements n cs = Some es"
    and "parseMembers m cs = Some ms \<Longrightarrow> parseMembers n cs = Some ms"
proof -
  obtain k where n: "n = m + k" using assms by (auto simp: le_iff_add)
  show "parseValue m cs = Some r \<Longrightarrow> parseValue n cs = Some r"
    unfolding n by (rule parse_fuel_add)
  show "parseElements m cs = Some es \<Longrightarrow> parseElements n cs = Some es"
    unfolding n by (rule parse_fuel_add)
  show "parseMembers m cs = Some ms \<Longrightarrow> parseMembers n cs = Some ms"
    unfolding n by (rule parse_fuel_add)
qed

lemma skipWs_length: "length (skipWs x) \<le> length x"
  by (simp add: skipWs_def length_dropWhile_le)

lemma skipWs_Cons_length: "skipWs x = c # r \<Longrightarrow> length r < length x"
  using skipWs_length [of x] by simp

lemma consChar_Some:
  "consChar c p = Some (s, rest) \<Longrightarrow> \<exists>s'. p = Some (s', rest)"
  by (auto simp: consChar_def split: option.splits)

lemma parseString_shorter:
  "parseString cs = Some (s, rest) \<Longrightarrow> length rest < length cs"
proof (induction cs arbitrary: s rule: length_induct)
  case (1 cs)
  show ?case
  proof (cases cs)
    case Nil
    then show ?thesis using "1.prems" by simp
  next
    case (Cons c r)
    show ?thesis
    proof (cases "c = CHR 0x22")
      case True
      then show ?thesis using "1.prems" Cons by simp
    next
      case nq: False
      show ?thesis
      proof (cases "c = CHR 0x5C")
        case False
        then obtain s' where "parseString r = Some (s', rest)"
          using "1.prems" Cons nq by (auto split: if_splits dest: consChar_Some)
        then have "length rest < length r" using "1.IH" Cons by simp
        then show ?thesis using Cons by simp
      next
        case True
        then obtain e r' where r: "r = e # r'"
          using "1.prems" Cons nq by (cases r) auto
        show ?thesis
        proof (cases "e = CHR ''u''")
          case False
          then obtain s' where "parseString r' = Some (s', rest)"
            using "1.prems" Cons nq True r by (auto split: option.splits dest: consChar_Some)
          then have "length rest < length r'" using "1.IH" Cons r by simp
          then show ?thesis using Cons r by simp
        next
          case u: True
          then obtain h1 h2 h3 h4 r'' where r': "r' = h1 # h2 # h3 # h4 # r''"
            using "1.prems" Cons nq True r by (auto split: list.splits)
          then obtain s' where "parseString r'' = Some (s', rest)"
            using "1.prems" Cons nq True r u
            by (auto split: option.splits if_splits dest: consChar_Some)
          then have "length rest < length r''" using "1.IH" Cons r r' by simp
          then show ?thesis using Cons r r' by simp
        qed
      qed
    qed
  qed
qed

lemma parseLiteral_shorter:
  "parseLiteral cs = Some (v, rest) \<Longrightarrow> length rest < length cs"
proof -
  assume a: "parseLiteral cs = Some (v, rest)"
  then consider "take 4 cs = ''true''" "rest = drop 4 cs"
    | "take 5 cs = ''false''" "rest = drop 5 cs"
    | "take 4 cs = ''null''" "rest = drop 4 cs"
    by (auto simp: parseLiteral_def split: if_splits)
  then show ?thesis
  proof cases
    case 1
    then have "cs \<noteq> []" by auto
    then show ?thesis using 1 by simp
  next
    case 2
    then have "cs \<noteq> []" by auto
    then show ?thesis using 2 by simp
  next
    case 3
    then have "cs \<noteq> []" by auto
    then show ?thesis using 3 by simp
  qed
qed

lemma parseFraction_length: "parseFraction cs = Some (fp, rest) \<Longrightarrow> length rest \<le> length cs"
proof -
  assume a: "parseFraction cs = Some (fp, rest)"
  have "length (dropWhile isDigit r) \<le> length r" for r by (rule length_dropWhile_le)
  then show ?thesis
    using a
    by (cases cs) (auto simp: parseFraction_def Let_def le_SucI split: if_splits)
qed

lemma parseExponent_length: "parseExponent cs = Some (ex, rest) \<Longrightarrow> length rest \<le> length cs"
proof (cases cs)
  case Nil
  assume "parseExponent cs = Some (ex, rest)"
  then show ?thesis using Nil by (simp add: parseExponent_def)
next
  case (Cons c r)
  assume a: "parseExponent cs = Some (ex, rest)"
  show ?thesis
  proof (cases "c = CHR ''e'' \<or> c = CHR ''E''")
    case False
    then show ?thesis using a Cons by (auto simp: parseExponent_def)
  next
    case True
    define r1 where "r1 = (if r \<noteq> [] \<and> (hd r = CHR ''-'' \<or> hd r = CHR ''+'') then tl r else r)"
    have "rest = dropWhile isDigit r1"
      using a Cons True unfolding r1_def
      by (auto simp: parseExponent_def Let_def split: if_splits)
    moreover have "length r1 \<le> length r" unfolding r1_def by simp
    moreover have "length (dropWhile isDigit r1) \<le> length r1" by (rule length_dropWhile_le)
    ultimately show ?thesis using Cons by simp
  qed
qed

lemma parseNumber_shorter:
  assumes "parseNumber cs = Some (v, rest)"
  shows "length rest < length cs"
proof -
  define r0 where "r0 = (if cs \<noteq> [] \<and> hd cs = CHR ''-'' then tl cs else cs)"
  define ip where "ip = (if r0 \<noteq> [] \<and> hd r0 = CHR ''0'' then [CHR ''0''] else takeWhile isDigit r0)"
  define r1 where "r1 = drop (length ip) r0"
  have ip: "ip \<noteq> []"
    using assms unfolding ip_def r0_def by (auto simp: parseNumber_def Let_def split: if_splits)
  obtain fp r2 where pf: "parseFraction r1 = Some (fp, r2)"
    using assms ip unfolding r1_def ip_def r0_def
    by (auto simp: parseNumber_def Let_def split: if_splits option.splits)
  obtain ex where pe: "parseExponent r2 = Some (ex, rest)"
    using assms ip pf unfolding r1_def ip_def r0_def
    by (auto simp: parseNumber_def Let_def split: if_splits option.splits)
  have "length ip \<le> length r0"
    unfolding ip_def by (cases r0) (auto simp: length_takeWhile_le)
  moreover have "r0 \<noteq> []" using ip unfolding ip_def by (auto split: if_splits)
  ultimately have "length r1 < length r0" using ip unfolding r1_def by (cases ip) auto
  moreover have "length r0 \<le> length cs" unfolding r0_def by simp
  moreover have "length r2 \<le> length r1" using pf by (rule parseFraction_length)
  moreover have "length rest \<le> length r2" using pe by (rule parseExponent_length)
  ultimately show ?thesis by simp
qed


lemma parse_spans:
  "(\<forall>cs v rest. parseValue n cs = Some (v, rest) \<longrightarrow>
      length rest < length cs \<and> parseValue (length cs - length rest) cs = Some (v, rest))
   \<and> (\<forall>cs es rest. parseElements n cs = Some (es, rest) \<longrightarrow>
      length rest < length cs \<and> parseElements (length cs - length rest) cs = Some (es, rest))
   \<and> (\<forall>cs ms rest. parseMembers n cs = Some (ms, rest) \<longrightarrow>
      length rest < length cs \<and> parseMembers (length cs - length rest) cs = Some (ms, rest))"
proof (induction n)
  case 0
  show ?case by simp
next
  case (Suc n)
  have IHv: "\<And>cs v rest. parseValue n cs = Some (v, rest) \<Longrightarrow>
      length rest < length cs \<and> parseValue (length cs - length rest) cs = Some (v, rest)"
    and IHe: "\<And>cs es rest. parseElements n cs = Some (es, rest) \<Longrightarrow>
      length rest < length cs \<and> parseElements (length cs - length rest) cs = Some (es, rest)"
    and IHm: "\<And>cs ms rest. parseMembers n cs = Some (ms, rest) \<Longrightarrow>
      length rest < length cs \<and> parseMembers (length cs - length rest) cs = Some (ms, rest)"
    using Suc.IH by blast+
  have v: "length rest < length cs \<and> parseValue (length cs - length rest) cs = Some (v, rest)"
    if a: "parseValue (Suc n) cs = Some (v, rest)" for cs v rest
  proof (cases cs)
    case Nil
    then show ?thesis using a by simp
  next
    case (Cons c r)
    show ?thesis
    proof (cases "c = CHR ''{''")
      case obj: True
      show ?thesis
      proof (cases "skipWs r \<noteq> [] \<and> hd (skipWs r) = CHR ''}''")
        case True
        then have res: "v = JObj []" "rest = tl (skipWs r)"
          using a Cons obj by (simp_all add: Let_def)
        have "length (tl (skipWs r)) < length (skipWs r)" using True by simp
        then have len: "length rest < length cs"
          using res skipWs_length [of r] Cons by simp
        then obtain k where k: "length cs - length rest = Suc k"
          by (cases "length cs - length rest") auto
        have "parseValue (Suc k) cs = Some (v, rest)"
          using Cons obj True res
          by (subst parseValue.simps(2)) (simp add: Let_def del: parse_simps(2,4,6))
        then show ?thesis using len k by simp
      next
        case False
        then obtain kvs where pm: "parseMembers n (skipWs r) = Some (kvs, rest)"
          and res: "v = JObj kvs"
          using a Cons obj by (auto simp: Let_def split: option.splits)
        have l1: "length rest < length (skipWs r)"
          and f1: "parseMembers (length (skipWs r) - length rest) (skipWs r) = Some (kvs, rest)"
          using IHm [OF pm] by simp_all
        have len: "length rest < length cs" using l1 skipWs_length [of r] Cons by simp
        then obtain k where k: "length cs - length rest = Suc k"
          by (cases "length cs - length rest") auto
        have "length (skipWs r) - length rest \<le> k"
          using k skipWs_length [of r] Cons by simp
        then have "parseMembers k (skipWs r) = Some (kvs, rest)"
          using f1 parse_fuel_le(3) by blast
        then have "parseValue (Suc k) cs = Some (v, rest)"
          using Cons obj False res
          by (subst parseValue.simps(2)) (auto simp add: Let_def simp del: parse_simps(2,4,6))
        then show ?thesis using len k by simp
      qed
    next
      case nobj: False
      show ?thesis
      proof (cases "c = CHR ''[''")
        case arr: True
        show ?thesis
        proof (cases "skipWs r \<noteq> [] \<and> hd (skipWs r) = CHR '']''")
          case True
          then have res: "v = JArr []" "rest = tl (skipWs r)"
            using a Cons arr by (simp_all add: Let_def)
          have "length (tl (skipWs r)) < length (skipWs r)" using True by simp
          then have len: "length rest < length cs"
            using res skipWs_length [of r] Cons by simp
          then obtain k where k: "length cs - length rest = Suc k"
            by (cases "length cs - length rest") auto
          have "parseValue (Suc k) cs = Some (v, rest)"
            using Cons arr True res
            by (subst parseValue.simps(2)) (simp add: Let_def del: parse_simps(2,4,6))
          then show ?thesis using len k by simp
        next
          case False
          then obtain vs where pe: "parseElements n (skipWs r) = Some (vs, rest)"
            and res: "v = JArr vs"
            using a Cons arr by (auto simp: Let_def split: option.splits)
          have l1: "length rest < length (skipWs r)"
            and f1: "parseElements (length (skipWs r) - length rest) (skipWs r) = Some (vs, rest)"
            using IHe [OF pe] by simp_all
          have len: "length rest < length cs" using l1 skipWs_length [of r] Cons by simp
          then obtain k where k: "length cs - length rest = Suc k"
            by (cases "length cs - length rest") auto
          have "length (skipWs r) - length rest \<le> k"
            using k skipWs_length [of r] Cons by simp
          then have "parseElements k (skipWs r) = Some (vs, rest)"
            using f1 parse_fuel_le(2) by blast
          then have "parseValue (Suc k) cs = Some (v, rest)"
            using Cons arr False res
            by (subst parseValue.simps(2)) (auto simp add: Let_def simp del: parse_simps(2,4,6))
          then show ?thesis using len k by simp
        qed
      next
        case False
        define body where "body =
          (if c = CHR 0x22 then
             (case parseString r of None \<Rightarrow> None | Some (s, r1) \<Rightarrow> Some (JStr s, r1))
           else if c = CHR ''-'' \<or> isDigit c then parseNumber cs
           else parseLiteral cs)"
        have eq: "parseValue (Suc k) cs = body" for k
          using Cons nobj False unfolding body_def
          by (subst parseValue.simps(2)) (simp del: parse_simps(2,4,6))
        have b: "body = Some (v, rest)" using a by (simp only: eq)
        have len: "length rest < length cs"
        proof (cases "c = CHR 0x22")
          case True
          then obtain s where "parseString r = Some (s, rest)"
            using b unfolding body_def by (auto split: option.splits)
          then have "length rest < length r" by (rule parseString_shorter)
          then show ?thesis using Cons by simp
        next
          case nq: False
          show ?thesis
          proof (cases "c = CHR ''-'' \<or> isDigit c")
            case True
            then have "parseNumber cs = Some (v, rest)" using b nq unfolding body_def by simp
            then show ?thesis by (rule parseNumber_shorter)
          next
            case False
            then have "parseLiteral cs = Some (v, rest)" using b nq unfolding body_def by simp
            then show ?thesis by (rule parseLiteral_shorter)
          qed
        qed
        then obtain k where k: "length cs - length rest = Suc k"
          by (cases "length cs - length rest") auto
        have "parseValue (Suc k) cs = Some (v, rest)" using b by (simp only: eq)
        then show ?thesis using len k by simp
      qed
    qed
  qed
  have e: "length rest < length cs \<and> parseElements (length cs - length rest) cs = Some (es, rest)"
    if a: "parseElements (Suc n) cs = Some (es, rest)" for cs es rest
  proof -
    from a obtain x r where pv: "parseValue n cs = Some (x, r)"
      by (auto split: option.splits)
    have l1: "length r < length cs"
      and f1: "parseValue (length cs - length r) cs = Some (x, r)"
      using IHv [OF pv] by simp_all
    from a pv obtain c r1 where sk: "skipWs r = c # r1"
      by (auto split: list.splits)
    have l2: "length r1 < length r" using sk by (rule skipWs_Cons_length)
    show ?thesis
    proof (cases "c = CHR '','' \<and> c \<noteq> CHR '']''")
      case False
      then have res: "c = CHR '']''" "es = [x]" "rest = r1"
        using a pv sk by (auto split: if_splits)
      have len: "length rest < length cs" using res l1 l2 by simp
      then obtain k where k: "length cs - length rest = Suc k"
        by (cases "length cs - length rest") auto
      have "length cs - length r \<le> k" using k res l1 l2 by simp
      then have "parseValue k cs = Some (x, r)" using f1 parse_fuel_le(1) by blast
      then have "parseElements (Suc k) cs = Some (es, rest)"
        using sk res by (subst parseElements.simps(2)) (simp del: parse_simps(2,4,6))
      then show ?thesis using len k by simp
    next
      case True
      then obtain vs where pe: "parseElements n (skipWs r1) = Some (vs, rest)"
        and res: "es = x # vs"
        using a pv sk by (auto split: option.splits)
      have l3: "length rest < length (skipWs r1)"
        and f3: "parseElements (length (skipWs r1) - length rest) (skipWs r1) = Some (vs, rest)"
        using IHe [OF pe] by simp_all
      have len: "length rest < length cs" using l1 l2 l3 skipWs_length [of r1] by simp
      then obtain k where k: "length cs - length rest = Suc k"
        by (cases "length cs - length rest") auto
      have "length cs - length r \<le> k" using k l1 l2 l3 skipWs_length [of r1] by simp
      then have p1: "parseValue k cs = Some (x, r)" using f1 parse_fuel_le(1) by blast
      have "length (skipWs r1) - length rest \<le> k"
        using k l1 l2 l3 skipWs_length [of r1] by simp
      then have p2: "parseElements k (skipWs r1) = Some (vs, rest)"
        using f3 parse_fuel_le(2) by blast
      have "parseElements (Suc k) cs = Some (es, rest)"
        using p1 p2 sk True res
        by (subst parseElements.simps(2)) (simp del: parse_simps(2,4,6))
      then show ?thesis using len k by simp
    qed
  qed
  have m: "length rest < length cs \<and> parseMembers (length cs - length rest) cs = Some (ms, rest)"
    if a: "parseMembers (Suc n) cs = Some (ms, rest)" for cs ms rest
  proof -
    from a obtain r where cs: "cs = CHR 0x22 # r"
      by (cases cs) (auto split: if_splits)
    from a cs obtain key r1 where ps: "parseString r = Some (key, r1)"
      by (auto split: option.splits)
    have l1: "length r1 < length r" using ps by (rule parseString_shorter)
    from a cs ps obtain r2 where sk1: "skipWs r1 = CHR '':'' # r2"
      by (auto split: list.splits if_splits)
    have l2: "length r2 < length r1" using sk1 by (rule skipWs_Cons_length)
    from a cs ps sk1 obtain x r3 where pv: "parseValue n (skipWs r2) = Some (x, r3)"
      by (auto split: option.splits)
    have l3: "length r3 < length (skipWs r2)"
      and f3: "parseValue (length (skipWs r2) - length r3) (skipWs r2) = Some (x, r3)"
      using IHv [OF pv] by simp_all
    from a cs ps sk1 pv obtain c3 r4 where sk3: "skipWs r3 = c3 # r4"
      by (auto split: list.splits)
    have l4: "length r4 < length r3" using sk3 by (rule skipWs_Cons_length)
    show ?thesis
    proof (cases "c3 = CHR '','' \<and> c3 \<noteq> CHR ''}''")
      case False
      then have res: "c3 = CHR ''}''" "ms = [(key, x)]" "rest = r4"
        using a cs ps sk1 pv sk3 by (auto split: if_splits)
      have len: "length rest < length cs"
        using res cs l1 l2 l3 l4 skipWs_length [of r2] by simp
      then obtain k where k: "length cs - length rest = Suc k"
        by (cases "length cs - length rest") auto
      have "length (skipWs r2) - length r3 \<le> k"
        using k res cs l1 l2 l3 l4 skipWs_length [of r2] by simp
      then have "parseValue k (skipWs r2) = Some (x, r3)" using f3 parse_fuel_le(1) by blast
      then have "parseMembers (Suc k) cs = Some (ms, rest)"
        using cs ps sk1 sk3 res by (subst parseMembers.simps(2)) (simp del: parse_simps(2,4,6))
      then show ?thesis using len k by simp
    next
      case True
      then obtain kvs where pm: "parseMembers n (skipWs r4) = Some (kvs, rest)"
        and res: "ms = (key, x) # kvs"
        using a cs ps sk1 pv sk3 by (auto split: option.splits)
      have l5: "length rest < length (skipWs r4)"
        and f5: "parseMembers (length (skipWs r4) - length rest) (skipWs r4) = Some (kvs, rest)"
        using IHm [OF pm] by simp_all
      have len: "length rest < length cs"
        using cs l1 l2 l3 l4 l5 skipWs_length [of r2] skipWs_length [of r4] by simp
      then obtain k where k: "length cs - length rest = Suc k"
        by (cases "length cs - length rest") auto
      have "length (skipWs r2) - length r3 \<le> k"
        using k cs l1 l2 l3 l4 l5 skipWs_length [of r2] skipWs_length [of r4] by simp
      then have p1: "parseValue k (skipWs r2) = Some (x, r3)" using f3 parse_fuel_le(1) by blast
      have "length (skipWs r4) - length rest \<le> k"
        using k cs l1 l2 l3 l4 l5 skipWs_length [of r2] skipWs_length [of r4] by simp
      then have p2: "parseMembers k (skipWs r4) = Some (kvs, rest)"
        using f5 parse_fuel_le(3) by blast
      have "parseMembers (Suc k) cs = Some (ms, rest)"
        using p1 p2 cs ps sk1 sk3 True res
        by (subst parseMembers.simps(2)) (simp del: parse_simps(2,4,6))
      then show ?thesis using len k by simp
    qed
  qed
  show ?case using v e m by blast
qed

text \<open>The bound that \<open>JSON_parse\<close> starts with never cuts a parse short.\<close>

lemma JSON_parse_bound_adequate:
  assumes "parseValue n (skipWs s) = Some (v, rest)"
  shows "parseValue (Suc (length s)) (skipWs s) = Some (v, rest)"
proof -
  have "parseValue (length (skipWs s) - length rest) (skipWs s) = Some (v, rest)"
    using parse_spans [of n] assms by blast
  moreover have "length (skipWs s) - length rest \<le> Suc (length s)"
    using skipWs_length [of s] by simp
  ultimately show ?thesis using parse_fuel_le(1) by blast
qed

lemma JSON_parse_None_iff:
  "JSON_parse s = None \<longleftrightarrow>
     (\<forall>n v rest. parseValue n (skipWs s) = Some (v, rest) \<longrightarrow> skipWs rest \<noteq> [])"
proof
  assume none: "JSON_parse s = None"
  show "\<forall>n v rest. parseValue n (skipWs s) = Some (v, rest) \<longrightarrow> skipWs rest \<noteq> []"
  proof (intro allI impI)
    fix n v rest
    assume "parseValue n (skipWs s) = Some (v, rest)"
    then have "parseValue (Suc (length s)) (skipWs s) = Some (v, rest)"
      by (rule JSON_parse_bound_adequate)
    then show "skipWs rest \<noteq> []"
      using none by (auto simp: JSON_parse_def simp del: parse_simps(2,4,6) split: if_splits)
  qed
next
  assume all: "\<forall>n v rest. parseValue n (skipWs s) = Some (v, rest) \<longrightarrow> skipWs rest \<noteq> []"
  show "JSON_parse s = None"
  proof (cases "parseValue (Suc (length s)) (skipWs s)")
    case None
    then show ?thesis by (simp add: JSON_parse_def del: parse_simps(2,4,6))
  next
    case (Some p)
    obtain v rest where p: "p = (v, rest)" by (cases p) auto
    then have "skipWs rest \<noteq> []" using all Some by blast
    then show ?thesis using Some p by (simp add: JSON_parse_def del: parse_simps(2,4,6))
  qed
qed

section \<open>Rejected submissions\<close>

text \<open>
  C1. When the prompt is empty or consists of white space only and no reference image is
  selected, \<open>startGeneration\<close> returns at once: the only change to the state is the error
  "Please provide at least a prompt or an image." (not a quota error), so the generating
  flag and the history are as before, and no call is made, in particular no network call.
\<close>

theorem startGeneration_rejects_empty_request:
  assumes "\<forall>c \<in> set (prompt s). isWhiteSpace c" and "selectedImage s = None"
  shows "startGeneration v w s =
           Some (Returned, s\<lparr>error := Some \<lparr> message = noInputMessage, isQuota = False \<rparr>\<rparr>, [])"
proof -
  have "trim (prompt s) = []" using assms(1) by (simp add: trim_empty_iff)
  then show ?thesis using assms(2) by (simp add: startGeneration_def)
qed

theorem startGeneration_rejects_empty_request_witness:
  "list_all isWhiteSpace (prompt (sampleStudio [CHR 0x20, CHR 0x09, CHR 0x0A] None))
   \<and> selectedImage (sampleStudio [CHR 0x20, CHR 0x09, CHR 0x0A] None) = None
   \<and> startGeneration AppTsx
         (sampleWorld (Inr pendingOperation) (pollsThen 0 (Inr pendingOperation)) (HttpOk ''blob:new''))
         (sampleStudio [CHR 0x20, CHR 0x09, CHR 0x0A] None) =
       Some (Returned,
             (sampleStudio [CHR 0x20, CHR 0x09, CHR 0x0A] None)
               \<lparr>error := Some \<lparr> message = noInputMessage, isQuota = False \<rparr>\<rparr>, [])"
  using startGeneration_rejects_empty_request
    [of "sampleStudio [CHR 0x20, CHR 0x09, CHR 0x0A] None" AppTsx
        "sampleWorld (Inr pendingOperation) (pollsThen 0 (Inr pendingOperation)) (HttpOk ''blob:new'')"]
  by (simp add: sampleStudio_def isWhiteSpace_def)

section \<open>The poll loop\<close>

lemma stillPolling_not_done: "stillPolling w op0 n \<Longrightarrow> \<not> op_done (polled w op0 n)"
  by (cases n) (auto split: sum.splits)

lemma stillPolling_mono: "stillPolling w op0 n \<Longrightarrow> m \<le> n \<Longrightarrow> stillPolling w op0 m"
proof (induction n)
  case 0
  then show ?case by simp
next
  case (Suc n)
  then show ?case by (cases "m = Suc n") auto
qed

lemma statusAfter_update:
  "(statusAfter v w t n)\<lparr>statusMessage := x\<rparr> = t\<lparr>statusMessage := x\<rparr>"
  by (cases n) simp_all

lemma pollLoop_unroll:
  "stillPolling w op0 n \<Longrightarrow>
   pollLoop v w 0 op0 t tr =
   pollLoop v w n (polled w op0 n) (statusAfter v w t n) (tr @ pollCalls w op0 n)"
proof (induction n)
  case 0
  then show ?case by simp
next
  case (Suc n)
  then have still: "stillPolling w op0 n" by simp
  from Suc.prems obtain operation where
    poll: "sdk_getVideosOperation w n = Inr operation" and "\<not> op_done operation"
    by (auto split: sum.splits)
  have nd: "\<not> op_done (polled w op0 n)" using still by (rule stillPolling_not_done)
  have "pollLoop v w n (polled w op0 n) (statusAfter v w t n) (tr @ pollCalls w op0 n) =
        pollLoop v w (Suc n) operation
          ((statusAfter v w t n)\<lparr>statusMessage := stageMessage v (math_random w n)\<rparr>)
          ((tr @ pollCalls w op0 n) @ [SetTimeout 10000] @ [GetVideosOperation (polled w op0 n)])"
    using nd poll
    by (subst pollLoop.simps) (simp add: getOperationStatus_def Let_def)
  then show ?case
    using Suc.IH [OF still] poll by (simp add: statusAfter_update)
qed

lemma pollLoop_done_at_once:
  "op_done op0 \<Longrightarrow> pollLoop v w i op0 t tr = Some (Inr op0, t, tr)"
  by (subst pollLoop.simps) simp

lemma pollLoop_done_after:
  assumes "stillPolling w op0 n" and "sdk_getVideosOperation w n = Inr final" and "op_done final"
  shows "pollLoop v w 0 op0 t tr =
           Some (Inr final, statusAfter v w t (Suc n), tr @ pollCalls w op0 (Suc n))"
proof -
  have nd: "\<not> op_done (polled w op0 n)" using assms(1) by (rule stillPolling_not_done)
  have "pollLoop v w n (polled w op0 n) (statusAfter v w t n) (tr @ pollCalls w op0 n) =
        pollLoop v w (Suc n) final
          ((statusAfter v w t n)\<lparr>statusMessage := stageMessage v (math_random w n)\<rparr>)
          ((tr @ pollCalls w op0 n) @ [SetTimeout 10000] @ [GetVideosOperation (polled w op0 n)])"
    using nd assms(2)
    by (subst pollLoop.simps) (simp add: getOperationStatus_def Let_def)
  also have "\<dots> = Some (Inr final,
          (statusAfter v w t n)\<lparr>statusMessage := stageMessage v (math_random w n)\<rparr>,
          (tr @ pollCalls w op0 n) @ [SetTimeout 10000] @ [GetVideosOperation (polled w op0 n)])"
    using assms(3) by (rule pollLoop_done_at_once)
  finally show ?thesis
    using pollLoop_unroll [OF assms(1)] by (simp add: statusAfter_update)
qed

lemma pollLoop_rejected_after:
  assumes "stillPolling w op0 n" and "sdk_getVideosOperation w n = Inl err"
  shows "pollLoop v w 0 op0 t tr =
           Some (Inl (rethrow err), statusAfter v w t (Suc n), tr @ pollCalls w op0 (Suc n))"
proof -
  have nd: "\<not> op_done (polled w op0 n)" using assms(1) by (rule stillPolling_not_done)
  have "pollLoop v w n (polled w op0 n) (statusAfter v w t n) (tr @ pollCalls w op0 n) =
        Some (Inl (rethrow err),
          (statusAfter v w t n)\<lparr>statusMessage := stageMessage v (math_random w n)\<rparr>,
          (tr @ pollCalls w op0 n) @ [SetTimeout 10000] @ [GetVideosOperation (polled w op0 n)])"
    using nd assms(2)
    by (subst pollLoop.simps) (simp add: getOperationStatus_def Let_def)
  then show ?thesis
    using pollLoop_unroll [OF assms(1)] by (simp add: statusAfter_update)
qed

lemma pollLoop_never_returns:
  assumes all: "\<forall>n. stillPolling w op0 n"
    and ret: "pollLoop v w i (polled w op0 i) t tr = Some r"
  shows False
proof -
  have step: "w' = w \<longrightarrow> operation = polled w op0 i' \<longrightarrow> False"
    if "pollLoop v' w' i' operation t' tr' = Some r'" for v' w' i' operation t' tr' r'
  proof (rule pollLoop.raw_induct
      [OF _ that, where P = "\<lambda>v' w' i' operation t' tr' r'. w' = w \<longrightarrow> operation = polled w op0 i' \<longrightarrow> False"])
    fix f :: "variant \<Rightarrow> env \<Rightarrow> nat \<Rightarrow> operation \<Rightarrow> studio \<Rightarrow> event list \<Rightarrow>
               ((js_error + operation) \<times> studio \<times> event list) option"
      and v' w' i' operation t' tr' r'
    assume IH: "\<And>v' w' i' operation t' tr' r'. f v' w' i' operation t' tr' = Some r' \<Longrightarrow>
                  w' = w \<longrightarrow> operation = polled w op0 i' \<longrightarrow> False"
    assume body: "(if op_done operation then Some (Inr operation, t', tr')
      else let t1 = t'\<lparr>statusMessage := stageMessage v' (math_random w' i')\<rparr>;
               tr1 = tr' @ [SetTimeout 10000]
           in case getOperationStatus w' i' operation of
              (Inl err, calls) \<Rightarrow> Some (Inl err, t1, tr1 @ calls)
              | (Inr operation', calls) \<Rightarrow>
                  f v' w' (Suc i') operation' t1 (tr1 @ calls)) = Some r'"
    show "w' = w \<longrightarrow> operation = polled w op0 i' \<longrightarrow> False"
    proof (intro impI)
      assume w: "w' = w" and o: "operation = polled w op0 i'"
      have "stillPolling w op0 (Suc i')" using all by blast
      then obtain nxt where still: "stillPolling w op0 i'"
        and poll: "sdk_getVideosOperation w i' = Inr nxt"
        by (auto split: sum.splits)
      have nd: "\<not> op_done operation" using still o by (simp add: stillPolling_not_done)
      have "f v' w (Suc i') nxt (t'\<lparr>statusMessage := stageMessage v' (math_random w i')\<rparr>)
              ((tr' @ [SetTimeout 10000]) @ [GetVideosOperation operation]) = Some r'"
        using body nd poll w by (simp add: getOperationStatus_def Let_def)
      moreover have "nxt = polled w op0 (Suc i')" using poll by simp
      ultimately show False using IH by blast
    qed
  qed
  show False using step [OF ret] by simp
qed

lemma pollLoop_forever:
  "\<forall>n. stillPolling w op0 n \<Longrightarrow> pollLoop v w 0 op0 t tr = None"
  using pollLoop_never_returns [of w op0 v 0 t tr] by (cases "pollLoop v w 0 op0 t tr") auto

lemma pollLoop_returns:
  assumes "\<not> stillPolling w op0 n"
  shows "\<exists>r. pollLoop v w 0 op0 t tr = Some r"
  using assms
proof (induction n)
  case 0
  then show ?case by (simp add: pollLoop_done_at_once)
next
  case (Suc n)
  show ?case
  proof (cases "stillPolling w op0 n")
    case False
    then show ?thesis using Suc.IH by blast
  next
    case True
    show ?thesis
    proof (cases "sdk_getVideosOperation w n")
      case (Inl err)
      then show ?thesis using pollLoop_rejected_after [OF True] by blast
    next
      case (Inr final)
      then have "op_done final" using Suc.prems True by simp
      then show ?thesis using pollLoop_done_after [OF True Inr] by blast
    qed
  qed
qed

section \<open>Runs that reach the end of polling\<close>

lemma statusAfter_shape: "\<exists>m. statusAfter v w t n = t\<lparr>statusMessage := m\<rparr>"
proof (cases n)
  case 0
  have "t = t\<lparr>statusMessage := statusMessage t\<rparr>" by simp
  then show ?thesis using 0 by (metis statusAfter.simps(1))
next
  case (Suc m)
  then show ?thesis by auto
qed

lemma prepareImage_readable:
  "imageReadable w s \<Longrightarrow> prepareImage w s = Inr (imagePayloadOf w s)"
  by (auto simp: imageReadable_def prepareImage_def imagePayloadOf_def fileToBase64_def
      split: option.splits sum.splits)

lemma pollLoop_completes:
  assumes "jobCompletes w op0 n final"
  shows "pollLoop v w 0 op0 t tr = Some (Inr final, statusAfter v w t n, tr @ pollCalls w op0 n)"
proof (cases n)
  case 0
  then have "op_done op0" and "final = op0" using assms by (auto simp: jobCompletes_def)
  then show ?thesis using 0 by (simp add: pollLoop_done_at_once)
next
  case (Suc m)
  then show ?thesis using assms pollLoop_done_after [of w op0 m final v t tr]
    by (simp add: jobCompletes_def)
qed

lemma tryBlock_completes:
  assumes "imageReadable w s" and "jobCompletes w op0 n final"
  shows "tryBlock v w s t =
           Some (afterPolling v w s final
                   (statusAfter v w (t\<lparr>statusMessage := dreamingMessage\<rparr>) n)
                   (GenerateVideos (sentPrompt (prompt s)) (imagePayloadOf w s) (resolution s)
                      (aspectRatio s) # pollCalls w op0 n))"
proof -
  have sub: "sdk_generateVideos w = Inr op0" using assms(2) by (simp add: jobCompletes_def)
  show ?thesis
    unfolding tryBlock_def
    by (simp add: prepareImage_readable [OF assms(1)] generateVeoVideo_def sub
        pollLoop_completes [OF assms(2)])
qed

lemma finallyBlock_after:
  "finallyBlock ((statusAfter v w (t\<lparr>statusMessage := x\<rparr>) n)\<lparr>statusMessage := y\<rparr>) = finallyBlock t"
  by (cases n) (simp_all add: finallyBlock_def)

lemma finallyBlock_after':
  "finallyBlock (statusAfter v w (t\<lparr>statusMessage := x\<rparr>) n) = finallyBlock t"
  by (cases n) (simp_all add: finallyBlock_def)

lemma startGeneration_succeeds:
  assumes "hasInput s" and "imageReadable w s" and "jobCompletes w op0 n final"
    and "op_error final = None" and "op_videoUri final = Some uri" and "uri \<noteq> []"
    and "http_fetch w = HttpOk blobUrl"
  shows "startGeneration v w s =
           Some (Returned,
                 s\<lparr>isGenerating := False, statusMessage := [], error := None,
                   history := recordedVideo v w s blobUrl # history s,
                   prompt := [], selectedImage := None\<rparr>,
                 GenerateVideos (sentPrompt (prompt s)) (imagePayloadOf w s) (resolution s)
                   (aspectRatio s) # pollCalls w op0 n @ [Fetch (uri @ ''&key='' @ api_key w)])"
proof -
  obtain m where m: "statusAfter v w
      ((beginGeneration s)\<lparr>statusMessage := dreamingMessage\<rparr>) n =
      (beginGeneration s)\<lparr>statusMessage := dreamingMessage, statusMessage := m\<rparr>"
    using statusAfter_shape by blast
  have "\<not> (trim (prompt s) = [] \<and> selectedImage s = None)"
    using assms(1) by (simp add: hasInput_def)
  then show ?thesis
    unfolding startGeneration_def resumeGeneration_def
    using assms(4-7) m
    by (simp add: tryBlock_completes [OF assms(2,3)] afterPolling_def fetchVideoBlobUrl_def
        finallyBlock_def recordedVideo_def beginGeneration_def Let_def)
qed

section \<open>Successful runs\<close>

lemma completingWorld_completes:
  "jobCompletes completingWorld pendingOperation 3 (finishedOperation None (Some videoUri))"
  by (simp add: completingWorld_def jobCompletes_def sampleWorld_def pollsThen_def
      pendingOperation_def finishedOperation_def eval_nat_numeral)

text \<open>
  C2 (as amended). When the request is not empty, the reference image (if any) is read, the
  job is accepted and reported done with no error and a non-empty result URI, and the
  download succeeds, \<open>startGeneration\<close> returns with no error shown and the generating flag
  off; the history is the old history with exactly one new entry at its head; that entry
  carries the object URL of the download and the resolution and aspect ratio of the request;
  its prompt is the prompt of the request when that is not empty, and the placeholder text
  of the component otherwise; the prompt and the image selection are cleared.
\<close>

theorem completed_video_prepended:
  assumes "hasInput s" and "imageReadable w s" and "jobCompletes w op0 n final"
    and "op_error final = None" and "op_videoUri final = Some uri" and "uri \<noteq> []"
    and "http_fetch w = HttpOk blobUrl"
  shows "\<exists>t tr. startGeneration v w s = Some (Returned, t, tr)
           \<and> error t = None \<and> \<not> isGenerating t
           \<and> history t = recordedVideo v w s blobUrl # history s
           \<and> video_url (recordedVideo v w s blobUrl) = blobUrl
           \<and> video_resolution (recordedVideo v w s blobUrl) = resolution s
           \<and> video_aspectRatio (recordedVideo v w s blobUrl) = aspectRatio s
           \<and> video_prompt (recordedVideo v w s blobUrl) =
                 (if prompt s = [] then placeholderPrompt v else prompt s)
           \<and> prompt t = [] \<and> selectedImage t = None"
  using startGeneration_succeeds [OF assms, of v] by (simp add: recordedVideo_def)

theorem completed_video_prepended_witness:
  "hasInput (sampleStudio ''A red kite over the sea'' None)
   \<and> imageReadable completingWorld (sampleStudio ''A red kite over the sea'' None)
   \<and> jobCompletes completingWorld pendingOperation 3 (finishedOperation None (Some videoUri))
   \<and> (\<exists>t tr. startGeneration Part000 completingWorld (sampleStudio ''A red kite over the sea'' None)
                 = Some (Returned, t, tr)
          \<and> history t =
              recordedVideo Part000 completingWorld (sampleStudio ''A red kite over the sea'' None)
                ''blob:new'' # [sampleVideo]
          \<and> video_prompt
                (recordedVideo Part000 completingWorld
                   (sampleStudio ''A red kite over the sea'' None) ''blob:new'')
              = ''A red kite over the sea''
          \<and> prompt t = [] \<and> selectedImage t = None)"
proof -
  have h1: "hasInput (sampleStudio ''A red kite over the sea'' None)"
    by (simp add: hasInput_def sampleStudio_def trim_def isWhiteSpace_def)
  have h2: "imageReadable completingWorld (sampleStudio ''A red kite over the sea'' None)"
    by (simp add: imageReadable_def sampleStudio_def)
  have h4: "op_error (finishedOperation None (Some videoUri)) = None"
    and h5: "op_videoUri (finishedOperation None (Some videoUri)) = Some videoUri"
    and h6: "videoUri \<noteq> []"
    and h7: "http_fetch completingWorld = HttpOk ''blob:new''"
    by (simp_all add: finishedOperation_def videoUri_def completingWorld_def sampleWorld_def)
  show ?thesis
    using completed_video_prepended [OF h1 h2 completingWorld_completes h4 h5 h6 h7, of Part000]
      h1 h2 completingWorld_completes
    by (auto simp: sampleStudio_def)
qed

text \<open>
  The claim as first stated asks the recorded prompt to equal the prompt of the request. For
  a request with a reference image and an empty prompt it does not: the entry is recorded
  with the placeholder text.
\<close>

theorem completed_video_prompt_counterexample:
  "prompt (sampleStudio [] (Some sampleImage)) = []
   \<and> completionOf (startGeneration AppTsx completingWorld (sampleStudio [] (Some sampleImage)))
       = Some Returned
   \<and> map_option (map video_prompt)
        (map_option history
           (stateOf (startGeneration AppTsx completingWorld (sampleStudio [] (Some sampleImage)))))
       = Some [''Image-to-Video Animation'', ''A lighthouse at dusk'']"
  by code_simp

text \<open>
  C10. For a request with an empty prompt and a reference image, the prompt handed to the
  service is "Animate this image with natural motion"; and when the run succeeds, the request
  sent first in the run carries that text and the entry recorded in the history carries the
  placeholder text of the component ("Image-to-Video Animation" in \<^verbatim>\<open>src/App.tsx\<close>,
  "Image-to-Video Generation" in \<^verbatim>\<open>src/unnamed/part_000\<close>), not the empty prompt.
\<close>

theorem image_only_request_prompts:
  assumes "prompt s = []" and "selectedImage s = Some sel"
    and "imageReadable w s" and "jobCompletes w op0 n final"
    and "op_error final = None" and "op_videoUri final = Some uri" and "uri \<noteq> []"
    and "http_fetch w = HttpOk blobUrl"
  shows "snd (generateVeoVideo w (prompt s) (resolution s) (aspectRatio s) img) =
           [GenerateVideos ''Animate this image with natural motion'' img (resolution s)
              (aspectRatio s)]
         \<and> (\<exists>t tr. startGeneration v w s =
                Some (Returned, t,
                      GenerateVideos ''Animate this image with natural motion''
                        (imagePayloadOf w s) (resolution s) (aspectRatio s) # tr)
              \<and> map video_prompt (history t) = placeholderPrompt v # map video_prompt (history s)
              \<and> placeholderPrompt v \<noteq> [])
         \<and> placeholderPrompt AppTsx = ''Image-to-Video Animation''
         \<and> placeholderPrompt Part000 = ''Image-to-Video Generation''"
proof -
  have input: "hasInput s" using assms(2) by (simp add: hasInput_def)
  have "snd (generateVeoVideo w (prompt s) (resolution s) (aspectRatio s) img) =
           [GenerateVideos ''Animate this image with natural motion'' img (resolution s)
              (aspectRatio s)]"
    using assms(1) by (simp add: generateVeoVideo_def sentPrompt_def Let_def split: sum.splits)
  moreover have "placeholderPrompt v \<noteq> []"
    by (cases v) (simp_all add: placeholderPrompt_def)
  ultimately show ?thesis
    using startGeneration_succeeds [OF input assms(3-8), of v] assms(1)
    by (simp add: recordedVideo_def sentPrompt_def placeholderPrompt_def)
qed

theorem image_only_request_prompts_witness:
  "prompt (sampleStudio [] (Some sampleImage)) = []
   \<and> selectedImage (sampleStudio [] (Some sampleImage)) = Some sampleImage
   \<and> imageReadable completingWorld (sampleStudio [] (Some sampleImage))
   \<and> (\<exists>t tr. startGeneration Part000 completingWorld (sampleStudio [] (Some sampleImage)) =
                Some (Returned, t,
                      GenerateVideos ''Animate this image with natural motion''
                        (Some \<lparr> imageBytes = Some ''QUJD'', mimeType = ''image/png'' \<rparr>)
                        R1080p A9x16 # tr)
          \<and> map video_prompt (history t) = [''Image-to-Video Generation'', ''A lighthouse at dusk''])"
proof -
  have h1: "prompt (sampleStudio [] (Some sampleImage)) = []"
    and h2: "selectedImage (sampleStudio [] (Some sampleImage)) = Some sampleImage"
    and h3: "imageReadable completingWorld (sampleStudio [] (Some sampleImage))"
    by (simp_all add: sampleStudio_def imageReadable_def completingWorld_def sampleWorld_def)
  have h5: "op_error (finishedOperation None (Some videoUri)) = None"
    and h6: "op_videoUri (finishedOperation None (Some videoUri)) = Some videoUri"
    and h7: "videoUri \<noteq> []"
    and h8: "http_fetch completingWorld = HttpOk ''blob:new''"
    by (simp_all add: finishedOperation_def videoUri_def completingWorld_def sampleWorld_def)
  have payload: "imagePayloadOf completingWorld (sampleStudio [] (Some sampleImage)) =
      Some \<lparr> imageBytes = Some ''QUJD'', mimeType = ''image/png'' \<rparr>"
    by (simp add: imagePayloadOf_def sampleStudio_def completingWorld_def sampleWorld_def
        sampleImage_def splitSecond_def)
  show ?thesis
    using image_only_request_prompts
      [OF h1 h2 h3 completingWorld_completes h5 h6 h7 h8, of undefined Part000]
      h1 h2 h3 payload
    by (auto simp: sampleStudio_def sampleVideo_def placeholderPrompt_def)
qed

section \<open>Runs that end without a result\<close>

lemma noContent_AppTsx:
  "unwrapMessage (noContentMessage AppTsx) = JStr (units (noContentMessage AppTsx))"
  "isQuotaError (JStr (units (noContentMessage AppTsx))) = Some False"
  "noContentMessage AppTsx \<noteq> API_KEY_RESET_REQUIRED"
  "noContentMessage AppTsx \<noteq> []"
  "includesStr (noContentMessage AppTsx) ''no video content was returned''"
  by code_simp+

lemma noContent_Part000:
  "unwrapMessage (noContentMessage Part000) = JStr (units (noContentMessage Part000))"
  "isQuotaError (JStr (units (noContentMessage Part000))) = Some False"
  "noContentMessage Part000 \<noteq> API_KEY_RESET_REQUIRED"
  "noContentMessage Part000 \<noteq> []"
  "includesStr (noContentMessage Part000) ''no video content was returned''"
  by code_simp+

lemma unwrap_noContent: "unwrapMessage (noContentMessage v) = JStr (units (noContentMessage v))"
  by (induct v) (rule noContent_AppTsx noContent_Part000)+

lemma quota_noContent: "isQuotaError (JStr (units (noContentMessage v))) = Some False"
  by (induct v) (rule noContent_AppTsx noContent_Part000)+

lemma noContent_other:
  "noContentMessage v \<noteq> API_KEY_RESET_REQUIRED" "noContentMessage v \<noteq> []"
  "includesStr (noContentMessage v) ''no video content was returned''"
  by (induct v, (rule noContent_AppTsx noContent_Part000)+)+

lemma catchBlock_noContent:
  "catchBlock v (Error (noContentMessage v)) t tr =
     (Returned, t\<lparr>error := Some \<lparr> message = units (noContentMessage v), isQuota = False \<rparr>\<rparr>, tr)"
  by (simp add: catchBlock_def Error_def unwrap_noContent quota_noContent noContent_other
      units_Nil_iff)

lemma resumeGeneration_completes:
  assumes "imageReadable w s" and "jobCompletes w op0 n final"
  shows "resumeGeneration v w s t =
     (case afterPolling v w s final
             (statusAfter v w (t\<lparr>statusMessage := dreamingMessage\<rparr>) n)
             (GenerateVideos (sentPrompt (prompt s)) (imagePayloadOf w s) (resolution s)
                (aspectRatio s) # pollCalls w op0 n) of
        (None, t1, tr) \<Rightarrow> Some (Returned, finallyBlock t1, tr)
      | (Some err, t1, tr) \<Rightarrow>
          (case catchBlock v err t1 tr of (cmp, t2, tr2) \<Rightarrow> Some (cmp, finallyBlock t2, tr2)))"
  unfolding resumeGeneration_def
  by (simp add: tryBlock_completes [OF assms] split: prod.splits option.splits)

lemma finallyBlock_error:
  "finallyBlock ((statusAfter v w ((beginGeneration s)\<lparr>statusMessage := x\<rparr>) n)\<lparr>error := e\<rparr>) =
     s\<lparr>isGenerating := False, statusMessage := [], error := e\<rparr>"
  by (cases n) (simp_all add: finallyBlock_def beginGeneration_def)

lemma startGeneration_with_input:
  "hasInput s \<Longrightarrow> startGeneration v w s = resumeGeneration v w s (beginGeneration s)"
  by (auto simp: startGeneration_def hasInput_def)

lemma startGeneration_no_content:
  assumes "hasInput s" and "imageReadable w s" and "jobCompletes w op0 n final"
    and "op_error final = None" and "op_videoUri final = None \<or> op_videoUri final = Some []"
  shows "startGeneration v w s =
           Some (Returned,
                 s\<lparr>isGenerating := False, statusMessage := [],
                   error := Some \<lparr> message = units (noContentMessage v), isQuota = False \<rparr>\<rparr>,
                 GenerateVideos (sentPrompt (prompt s)) (imagePayloadOf w s) (resolution s)
                   (aspectRatio s) # pollCalls w op0 n)"
proof -
  have "\<not> (trim (prompt s) = [] \<and> selectedImage s = None)"
    using assms(1) by (simp add: hasInput_def)
  moreover have "afterPolling v w s final t tr = (Some (Error (noContentMessage v)), t, tr)" for t tr
    using assms(4,5) by (auto simp: afterPolling_def)
  ultimately show ?thesis
    unfolding startGeneration_def
    by (simp add: resumeGeneration_completes [OF assms(2,3)] catchBlock_noContent finallyBlock_error)
qed

lemma catchBlock_history:
  "catchBlock v err t tr = (cmp, t1, tr1) \<Longrightarrow> history t1 = history t"
  by (auto simp: catchBlock_def Let_def split: option.splits if_splits)

lemma startGeneration_without_result:
  assumes "hasInput s" and "imageReadable w s" and "jobCompletes w op0 n final"
    and "op_videoUri final = None \<or> op_videoUri final = Some []"
  shows "\<exists>cmp t tr. startGeneration v w s = Some (cmp, t, tr)
           \<and> history t = history s \<and> \<not> isGenerating t"
proof -
  define T where "T = statusAfter v w ((beginGeneration s)\<lparr>statusMessage := dreamingMessage\<rparr>) n"
  define calls where "calls = GenerateVideos (sentPrompt (prompt s)) (imagePayloadOf w s)
      (resolution s) (aspectRatio s) # pollCalls w op0 n"
  have input: "\<not> (trim (prompt s) = [] \<and> selectedImage s = None)"
    using assms(1) by (simp add: hasInput_def)
  obtain m where "T = (beginGeneration s)\<lparr>statusMessage := dreamingMessage, statusMessage := m\<rparr>"
    unfolding T_def using statusAfter_shape by blast
  then have hT: "history T = history s" by (simp add: beginGeneration_def)
  have "\<exists>err. afterPolling v w s final T calls = (Some err, T, calls)"
  proof (cases "op_error final")
    case None
    then show ?thesis using assms(4) by (auto simp: afterPolling_def)
  next
    case (Some m)
    then show ?thesis by (simp add: afterPolling_def)
  qed
  then obtain err where ap: "afterPolling v w s final T calls = (Some err, T, calls)" by blast
  obtain cmp t2 tr2 where cb: "catchBlock v err T calls = (cmp, t2, tr2)"
    by (cases "catchBlock v err T calls") auto
  have h2: "history t2 = history T" using cb by (rule catchBlock_history)
  have "resumeGeneration v w s (beginGeneration s) =
          (case afterPolling v w s final T calls of
             (None, t1, tr) \<Rightarrow> Some (Returned, finallyBlock t1, tr)
           | (Some err, t1, tr) \<Rightarrow>
               (case catchBlock v err t1 tr of (cmp, t2, tr2) \<Rightarrow> Some (cmp, finallyBlock t2, tr2)))"
    unfolding T_def calls_def by (rule resumeGeneration_completes [OF assms(2,3)])
  then have "resumeGeneration v w s (beginGeneration s) = Some (cmp, finallyBlock t2, tr2)"
    by (simp add: ap cb)
  then have "startGeneration v w s = Some (cmp, finallyBlock t2, tr2)"
    using startGeneration_with_input [OF assms(1), of v w] by simp
  moreover have "history (finallyBlock t2) = history s"
    using h2 hT by (simp add: finallyBlock_def)
  moreover have "\<not> isGenerating (finallyBlock t2)" by (simp add: finallyBlock_def)
  ultimately show ?thesis by blast
qed

text \<open>
  C6 (as amended). When the job is reported done without a result URI (the URI is absent or
  empty), \<open>startGeneration\<close> returns or ends with an exception, and either way it leaves the
  history as it was at the call, with the generating flag off. When, in addition, the finished
  operation carries no error, \<open>startGeneration\<close> returns with the error of the component that
  says that no video content was returned, followed by a hint (not a quota error); the rest of
  the state is as it was at the call, and nothing is downloaded.
\<close>

theorem no_content_failure:
  assumes "hasInput s" and "imageReadable w s" and "jobCompletes w op0 n final"
    and "op_videoUri final = None \<or> op_videoUri final = Some []"
  shows "(\<exists>cmp t tr. startGeneration v w s = Some (cmp, t, tr)
            \<and> history t = history s \<and> \<not> isGenerating t)
         \<and> (op_error final = None \<longrightarrow>
               startGeneration v w s =
                 Some (Returned,
                       s\<lparr>isGenerating := False, statusMessage := [],
                         error := Some \<lparr> message = units (noContentMessage v), isQuota = False \<rparr>\<rparr>,
                       GenerateVideos (sentPrompt (prompt s)) (imagePayloadOf w s) (resolution s)
                         (aspectRatio s) # pollCalls w op0 n))
         \<and> includesStr (noContentMessage v) ''no video content was returned''"
  using startGeneration_without_result [OF assms, of v]
    startGeneration_no_content [OF assms(1-3) _ assms(4), of v] noContent_other(3) [of v]
  by blast

lemma emptyResultWorld_completes:
  "jobCompletes emptyResultWorld pendingOperation 2 (finishedOperation None None)"
  by (simp add: emptyResultWorld_def jobCompletes_def sampleWorld_def pollsThen_def
      pendingOperation_def finishedOperation_def eval_nat_numeral)

lemma failedJobWorld_completes:
  "jobCompletes failedJobWorld pendingOperation 2
     (finishedOperation (Some (Some ''Internal error encountered.'')) None)"
  by (simp add: failedJobWorld_def jobCompletes_def sampleWorld_def pollsThen_def
      pendingOperation_def finishedOperation_def eval_nat_numeral)

theorem no_content_failure_witness:
  "hasInput (sampleStudio ''A red kite over the sea'' None)
   \<and> imageReadable emptyResultWorld (sampleStudio ''A red kite over the sea'' None)
   \<and> jobCompletes emptyResultWorld pendingOperation 2 (finishedOperation None None)
   \<and> op_videoUri (finishedOperation None None) = None
   \<and> op_error (finishedOperation None None) = None
   \<and> stateOf (startGeneration AppTsx emptyResultWorld (sampleStudio ''A red kite over the sea'' None))
       = Some ((sampleStudio ''A red kite over the sea'' None)
                 \<lparr>error := Some \<lparr> message = units (noContentMessage AppTsx), isQuota = False \<rparr>\<rparr>)
   \<and> jobCompletes failedJobWorld pendingOperation 2
         (finishedOperation (Some (Some ''Internal error encountered.'')) None)
   \<and> (\<exists>cmp t tr. startGeneration AppTsx failedJobWorld (sampleStudio ''A red kite over the sea'' None)
                     = Some (cmp, t, tr)
          \<and> history t = [sampleVideo] \<and> \<not> isGenerating t)"
proof -
  have h1: "hasInput (sampleStudio ''A red kite over the sea'' None)"
    by (simp add: hasInput_def sampleStudio_def trim_def isWhiteSpace_def)
  have h2: "imageReadable w (sampleStudio ''A red kite over the sea'' None)" for w
    by (simp add: imageReadable_def sampleStudio_def)
  have h4: "op_error (finishedOperation None None) = None"
    and h5: "op_videoUri (finishedOperation None None) = None
              \<or> op_videoUri (finishedOperation None None) = Some []"
    and h6: "op_videoUri (finishedOperation (Some (Some ''Internal error encountered.'')) None) = None
              \<or> op_videoUri (finishedOperation (Some (Some ''Internal error encountered.'')) None) = Some []"
    by (simp_all add: finishedOperation_def)
  show ?thesis
    using no_content_failure [OF h1 h2 emptyResultWorld_completes h5, of AppTsx]
      no_content_failure [OF h1 h2 failedJobWorld_completes h6, of AppTsx]
      h1 h2 [of emptyResultWorld] emptyResultWorld_completes failedJobWorld_completes h4
    by (simp add: stateOf_def sampleStudio_def finishedOperation_def)
qed

text \<open>
  The claim as first stated has every job that is reported done without a result URI end with
  the message that no video content was returned. The job below is reported done with an
  error and without a result URI, and the message shown is another one.
\<close>

theorem no_content_message_counterexample:
  "op_done (finishedOperation (Some (Some ''Internal error encountered.'')) None)
   \<and> op_videoUri (finishedOperation (Some (Some ''Internal error encountered.'')) None) = None
   \<and> sdk_getVideosOperation failedJobWorld 1 =
        Inr (finishedOperation (Some (Some ''Internal error encountered.'')) None)
   \<and> map_option error
        (stateOf (startGeneration AppTsx failedJobWorld (sampleStudio ''A red kite over the sea'' None)))
       = Some (Some \<lparr> message = units ''Internal error encountered.'', isQuota = False \<rparr>)
   \<and> \<not> includesStr ''Internal error encountered.'' ''no video content was returned''"
  by code_simp

section \<open>Invalid credentials\<close>

lemma reset_signal_facts:
  "unwrapMessage API_KEY_RESET_REQUIRED = JStr (units API_KEY_RESET_REQUIRED)"
  "isQuotaError (JStr (units API_KEY_RESET_REQUIRED)) = Some False"
  by code_simp+

lemma catchBlock_reset:
  "catchBlock v (Error API_KEY_RESET_REQUIRED) t tr = (Returned, t\<lparr>error := None\<rparr>, tr @ [OnKeyReset])"
  by (simp add: catchBlock_def Error_def reset_signal_facts)

lemma includesStr_append: "includesStr m x \<Longrightarrow> includesStr (a @ m) x"
proof -
  assume "includesStr m x"
  then obtain p q where "m = p @ x @ q" using includesStr_iff by blast
  then have "a @ m = (a @ p) @ x @ q" by simp
  then show ?thesis using includesStr_iff by blast
qed

lemma rethrow_not_found:
  "rejectsNotFound (Inl err) \<Longrightarrow> rethrow err = Error API_KEY_RESET_REQUIRED"
  by (auto simp: rejectsNotFound_def rethrow_def includesStr_append split: option.splits)

lemma pollCalls_no_reset: "OnKeyReset \<notin> set (pollCalls w op0 n)"
  by (induction n) simp_all

lemma finallyBlock_begin:
  "finallyBlock ((beginGeneration s)\<lparr>error := e\<rparr>) = s\<lparr>isGenerating := False, statusMessage := [], error := e\<rparr>"
  by (simp add: finallyBlock_def beginGeneration_def)

lemma finallyBlock_error2:
  "finallyBlock ((statusAfter v w ((beginGeneration s)\<lparr>statusMessage := x\<rparr>) n)\<lparr>statusMessage := y, error := e\<rparr>) =
     s\<lparr>isGenerating := False, statusMessage := [], error := e\<rparr>"
  by (cases n) (simp_all add: finallyBlock_def beginGeneration_def)

lemma reset_at_submit:
  assumes "hasInput s" and "imageReadable w s" and "rejectsNotFound (sdk_generateVideos w)"
  shows "startGeneration v w s =
           Some (Returned, s\<lparr>isGenerating := False, statusMessage := [], error := None\<rparr>,
                 [GenerateVideos (sentPrompt (prompt s)) (imagePayloadOf w s) (resolution s)
                    (aspectRatio s)] @ [OnKeyReset])"
proof -
  obtain err where sub: "sdk_generateVideos w = Inl err"
    using assms(3) by (cases "sdk_generateVideos w") (simp_all add: rejectsNotFound_def)
  then have re: "rethrow err = Error API_KEY_RESET_REQUIRED"
    using assms(3) by (simp add: rethrow_not_found)
  have "\<not> (trim (prompt s) = [] \<and> selectedImage s = None)"
    using assms(1) by (simp add: hasInput_def)
  then show ?thesis
    unfolding startGeneration_def resumeGeneration_def tryBlock_def
    by (simp add: prepareImage_readable [OF assms(2)] generateVeoVideo_def sub re
        catchBlock_reset finallyBlock_begin)
qed

lemma reset_at_poll:
  assumes "hasInput s" and "imageReadable w s" and "sdk_generateVideos w = Inr op0"
    and "stillPolling w op0 n" and "rejectsNotFound (sdk_getVideosOperation w n)"
  shows "startGeneration v w s =
           Some (Returned, s\<lparr>isGenerating := False, statusMessage := [], error := None\<rparr>,
                 (GenerateVideos (sentPrompt (prompt s)) (imagePayloadOf w s) (resolution s)
                    (aspectRatio s) # pollCalls w op0 (Suc n)) @ [OnKeyReset])"
proof -
  obtain err where poll: "sdk_getVideosOperation w n = Inl err"
    using assms(5) by (cases "sdk_getVideosOperation w n") (simp_all add: rejectsNotFound_def)
  then have re: "rethrow err = Error API_KEY_RESET_REQUIRED"
    using assms(5) by (simp add: rethrow_not_found)
  have "\<not> (trim (prompt s) = [] \<and> selectedImage s = None)"
    using assms(1) by (simp add: hasInput_def)
  then show ?thesis
    unfolding startGeneration_def resumeGeneration_def tryBlock_def
    by (simp add: prepareImage_readable [OF assms(2)] generateVeoVideo_def assms(3)
        pollLoop_rejected_after [OF assms(4) poll] re catchBlock_reset
        finallyBlock_def beginGeneration_def)
qed

lemma reset_at_fetch:
  assumes "hasInput s" and "imageReadable w s" and "jobCompletes w op0 n final"
    and "op_error final = None" and "op_videoUri final = Some uri" and "uri \<noteq> []"
    and "respondsNotFound (http_fetch w)"
  shows "startGeneration v w s =
           Some (Returned, s\<lparr>isGenerating := False, statusMessage := [], error := None\<rparr>,
                 (GenerateVideos (sentPrompt (prompt s)) (imagePayloadOf w s) (resolution s)
                    (aspectRatio s) # pollCalls w op0 n @ [Fetch (uri @ ''&key='' @ api_key w)])
                 @ [OnKeyReset])"
proof -
  obtain status body where resp: "http_fetch w = HttpError status body"
    and body: "includesStr body entityNotFound"
    using assms(7) by (cases "http_fetch w") (simp_all add: respondsNotFound_def)
  have "\<not> (trim (prompt s) = [] \<and> selectedImage s = None)"
    using assms(1) by (simp add: hasInput_def)
  then show ?thesis
    unfolding startGeneration_def
    using assms(4-6) resp body
    by (simp add: resumeGeneration_completes [OF assms(2,3)] afterPolling_def
        fetchVideoBlobUrl_def catchBlock_reset finallyBlock_error2 Let_def)
qed

text \<open>
  C3. When the request is not empty and the reference image (if any) is read, and the service
  rejects the submission, or a poll, with a message that contains "Requested entity was not
  found", or answers the download with an error response whose body contains it, then
  \<open>startGeneration\<close> returns after calling \<open>onKeyReset\<close> exactly once, as its last call, and
  leaves no error in the state (the generating flag is off, the rest of the state is as at
  the call). Nothing is assumed about the rest of the message: quota markers in it do not
  change the outcome.
\<close>

theorem credential_reset_on_not_found:
  assumes "hasInput s" and "imageReadable w s"
    and "rejectsNotFound (sdk_generateVideos w)
         \<or> (sdk_generateVideos w = Inr op0 \<and> stillPolling w op0 n
              \<and> rejectsNotFound (sdk_getVideosOperation w n))
         \<or> (jobCompletes w op0 n final \<and> op_error final = None \<and> op_videoUri final = Some uri
              \<and> uri \<noteq> [] \<and> respondsNotFound (http_fetch w))"
  shows "\<exists>tr. startGeneration v w s =
                Some (Returned, s\<lparr>isGenerating := False, statusMessage := [], error := None\<rparr>,
                      tr @ [OnKeyReset])
              \<and> OnKeyReset \<notin> set tr"
  using assms(3)
proof (elim disjE conjE)
  assume "rejectsNotFound (sdk_generateVideos w)"
  then show ?thesis using reset_at_submit [OF assms(1,2), of v] by simp
next
  assume "sdk_generateVideos w = Inr op0" "stillPolling w op0 n"
    "rejectsNotFound (sdk_getVideosOperation w n)"
  then have "startGeneration v w s =
           Some (Returned, s\<lparr>isGenerating := False, statusMessage := [], error := None\<rparr>,
                 (GenerateVideos (sentPrompt (prompt s)) (imagePayloadOf w s) (resolution s)
                    (aspectRatio s) # pollCalls w op0 (Suc n)) @ [OnKeyReset])"
    using reset_at_poll [OF assms(1,2)] by blast
  moreover have "OnKeyReset \<notin> set (GenerateVideos (sentPrompt (prompt s)) (imagePayloadOf w s)
      (resolution s) (aspectRatio s) # pollCalls w op0 (Suc n))"
    using pollCalls_no_reset [of w op0 "Suc n"] by simp
  ultimately show ?thesis by blast
next
  assume "jobCompletes w op0 n final" "op_error final = None" "op_videoUri final = Some uri"
    "uri \<noteq> []" "respondsNotFound (http_fetch w)"
  then have "startGeneration v w s =
           Some (Returned, s\<lparr>isGenerating := False, statusMessage := [], error := None\<rparr>,
                 (GenerateVideos (sentPrompt (prompt s)) (imagePayloadOf w s) (resolution s)
                    (aspectRatio s) # pollCalls w op0 n @ [Fetch (uri @ ''&key='' @ api_key w)])
                 @ [OnKeyReset])"
    using reset_at_fetch [OF assms(1,2)] by blast
  moreover have "OnKeyReset \<notin> set (GenerateVideos (sentPrompt (prompt s)) (imagePayloadOf w s)
      (resolution s) (aspectRatio s) # pollCalls w op0 n @ [Fetch (uri @ ''&key='' @ api_key w)])"
    using pollCalls_no_reset [of w op0 n] by simp
  ultimately show ?thesis by blast
qed

lemma sample_has_input: "hasInput (sampleStudio ''A red kite over the sea'' None)"
  by (simp add: hasInput_def sampleStudio_def trim_def isWhiteSpace_def)

lemma sample_readable: "imageReadable w (sampleStudio p None)"
  by (simp add: imageReadable_def sampleStudio_def)

lemma mixedMessage_markers:
  "includesStr mixedMessage entityNotFound"
  "includesStr mixedMessage ''RESOURCE_EXHAUSTED''"
  "includesStr mixedMessage ''429''"
  "includesStr (toLowerCase (units mixedMessage)) (map Some (units ''quota''))"
  by code_simp+

theorem credential_reset_on_not_found_witness:
  "includesStr mixedMessage ''RESOURCE_EXHAUSTED'' \<and> includesStr mixedMessage ''429''
   \<and> includesStr (toLowerCase (units mixedMessage)) (map Some (units ''quota''))
   \<and> rejectsNotFound (sdk_generateVideos submitNotFoundWorld)
   \<and> (\<exists>tr. startGeneration AppTsx submitNotFoundWorld (sampleStudio ''A red kite over the sea'' None) =
              Some (Returned,
                    (sampleStudio ''A red kite over the sea'' None)
                      \<lparr>isGenerating := False, statusMessage := [], error := None\<rparr>,
                    tr @ [OnKeyReset])
            \<and> OnKeyReset \<notin> set tr)
   \<and> rejectsNotFound (sdk_getVideosOperation pollNotFoundWorld 1)
   \<and> (\<exists>tr. startGeneration AppTsx pollNotFoundWorld (sampleStudio ''A red kite over the sea'' None) =
              Some (Returned,
                    (sampleStudio ''A red kite over the sea'' None)
                      \<lparr>isGenerating := False, statusMessage := [], error := None\<rparr>,
                    tr @ [OnKeyReset])
            \<and> OnKeyReset \<notin> set tr)
   \<and> respondsNotFound (http_fetch fetchNotFoundWorld)
   \<and> (\<exists>tr. startGeneration Part000 fetchNotFoundWorld (sampleStudio ''A red kite over the sea'' None) =
              Some (Returned,
                    (sampleStudio ''A red kite over the sea'' None)
                      \<lparr>isGenerating := False, statusMessage := [], error := None\<rparr>,
                    tr @ [OnKeyReset])
            \<and> OnKeyReset \<notin> set tr)"
proof -
  have a: "rejectsNotFound (sdk_generateVideos submitNotFoundWorld)"
    by (simp add: submitNotFoundWorld_def sampleWorld_def rejectsNotFound_def serviceError_def
        mixedMessage_markers)
  have b: "sdk_generateVideos pollNotFoundWorld = Inr pendingOperation
           \<and> stillPolling pollNotFoundWorld pendingOperation 1
           \<and> rejectsNotFound (sdk_getVideosOperation pollNotFoundWorld 1)"
    by (simp add: pollNotFoundWorld_def sampleWorld_def rejectsNotFound_def serviceError_def
        mixedMessage_markers pollsThen_def pendingOperation_def eval_nat_numeral)
  have c: "jobCompletes fetchNotFoundWorld pendingOperation 3 (finishedOperation None (Some videoUri))
           \<and> op_error (finishedOperation None (Some videoUri)) = None
           \<and> op_videoUri (finishedOperation None (Some videoUri)) = Some videoUri
           \<and> videoUri \<noteq> [] \<and> respondsNotFound (http_fetch fetchNotFoundWorld)"
    by (simp add: fetchNotFoundWorld_def sampleWorld_def respondsNotFound_def jobCompletes_def
        mixedMessage_markers pollsThen_def pendingOperation_def finishedOperation_def
        videoUri_def eval_nat_numeral)
  show ?thesis
    using credential_reset_on_not_found [OF sample_has_input sample_readable disjI1, OF a, of AppTsx]
      credential_reset_on_not_found
        [OF sample_has_input sample_readable disjI2, OF disjI1, OF b, of AppTsx]
      credential_reset_on_not_found
        [OF sample_has_input sample_readable disjI2, OF disjI2, OF c, of Part000]
      a b c mixedMessage_markers
    by simp
qed

section \<open>Termination of the poll loop\<close>

lemma pendingForever_still: "stillPolling pendingForeverWorld pendingOperation n"
  by (induction n) (simp_all add: pendingForeverWorld_def sampleWorld_def pendingOperation_def)

lemma stillPolling_all_iff:
  "(\<forall>n. stillPolling w op0 n) \<longleftrightarrow>
   \<not> op_done op0 \<and> (\<forall>i. \<exists>operation. sdk_getVideosOperation w i = Inr operation \<and> \<not> op_done operation)"
proof
  assume all: "\<forall>n. stillPolling w op0 n"
  have "\<not> op_done op0" using all [rule_format, of 0] by simp
  moreover have "\<exists>operation. sdk_getVideosOperation w i = Inr operation \<and> \<not> op_done operation" for i
    using all [rule_format, of "Suc i"] by (auto split: sum.splits)
  ultimately show "\<not> op_done op0 \<and>
      (\<forall>i. \<exists>operation. sdk_getVideosOperation w i = Inr operation \<and> \<not> op_done operation)"
    by blast
next
  assume r: "\<not> op_done op0 \<and>
      (\<forall>i. \<exists>operation. sdk_getVideosOperation w i = Inr operation \<and> \<not> op_done operation)"
  have "stillPolling w op0 n" for n
  proof (induction n)
    case 0
    then show ?case using r by simp
  next
    case (Suc n)
    obtain operation where "sdk_getVideosOperation w n = Inr operation" "\<not> op_done operation"
      using r by blast
    then show ?case using Suc by simp
  qed
  then show "\<forall>n. stillPolling w op0 n" by blast
qed

lemma pollLoop_None_iff:
  "pollLoop v w 0 op0 t tr = None \<longleftrightarrow> (\<forall>n. stillPolling w op0 n)"
proof
  assume none: "pollLoop v w 0 op0 t tr = None"
  show "\<forall>n. stillPolling w op0 n"
  proof (rule ccontr)
    assume "\<not> (\<forall>n. stillPolling w op0 n)"
    then obtain n where "\<not> stillPolling w op0 n" by blast
    then have "\<exists>r. pollLoop v w 0 op0 t tr = Some r" by (rule pollLoop_returns)
    then show False using none by simp
  qed
next
  assume "\<forall>n. stillPolling w op0 n"
  then show "pollLoop v w 0 op0 t tr = None" by (rule pollLoop_forever)
qed

lemma resumeGeneration_None_iff:
  "resumeGeneration v w c t = None \<longleftrightarrow> tryBlock v w c t = None"
  by (auto simp: resumeGeneration_def split: option.splits prod.splits)

lemma tryBlock_None_iff:
  assumes "imageReadable w s" and "sdk_generateVideos w = Inr op0"
  shows "tryBlock v w s t = None \<longleftrightarrow>
           pollLoop v w 0 op0 (t\<lparr>statusMessage := dreamingMessage\<rparr>)
             [GenerateVideos (sentPrompt (prompt s)) (imagePayloadOf w s) (resolution s)
                (aspectRatio s)] = None"
proof (cases "pollLoop v w 0 op0 (t\<lparr>statusMessage := dreamingMessage\<rparr>)
             [GenerateVideos (sentPrompt (prompt s)) (imagePayloadOf w s) (resolution s)
                (aspectRatio s)]")
  case None
  then show ?thesis
    unfolding tryBlock_def
    by (simp add: prepareImage_readable [OF assms(1)] generateVeoVideo_def assms(2))
next
  case (Some r)
  obtain res t1 tr1 where r: "r = (res, t1, tr1)" by (cases r) auto
  show ?thesis
    unfolding tryBlock_def
    using Some r
    by (cases res) (simp_all add: prepareImage_readable [OF assms(1)] generateVeoVideo_def assms(2))
qed

lemma startGeneration_None_iff:
  assumes "hasInput s" and "imageReadable w s" and "sdk_generateVideos w = Inr op0"
  shows "startGeneration v w s = None \<longleftrightarrow> (\<forall>n. stillPolling w op0 n)"
  by (simp add: startGeneration_with_input [OF assms(1)] resumeGeneration_None_iff
      tryBlock_None_iff [OF assms(2,3)] pollLoop_None_iff)

text \<open>
  C9. Each round of the poll loop waits 10000 ms and then polls, and the loop goes on exactly
  as long as the operation in hand is not done. It never returns exactly when the submitted
  operation is not done and every poll returns an operation that is not done; an accepted
  request then keeps \<open>startGeneration\<close> from returning at all: there is no time limit and no
  bound on the number of rounds. When the submitted operation is done the loop makes no call,
  and when the first \<open>n\<close> polls report the job pending and the next one reports it done,
  the loop returns that operation after exactly \<open>n + 1\<close> rounds.
\<close>

theorem poll_loop_runs_until_done:
  "(pollLoop v w 0 op0 t tr = None \<longleftrightarrow> (\<forall>n. stillPolling w op0 n))
   \<and> ((\<forall>n. stillPolling w op0 n) \<longleftrightarrow>
        \<not> op_done op0 \<and>
        (\<forall>i. \<exists>operation. sdk_getVideosOperation w i = Inr operation \<and> \<not> op_done operation))
   \<and> (hasInput s \<and> imageReadable w s \<and> sdk_generateVideos w = Inr op0 \<longrightarrow>
        (startGeneration v w s = None \<longleftrightarrow> (\<forall>n. stillPolling w op0 n)))
   \<and> (op_done op0 \<longrightarrow> pollLoop v w 0 op0 t tr = Some (Inr op0, t, tr))
   \<and> (stillPolling w op0 n \<and> sdk_getVideosOperation w n = Inr final \<and> op_done final \<longrightarrow>
        pollLoop v w 0 op0 t tr =
          Some (Inr final, statusAfter v w t (Suc n), tr @ pollCalls w op0 (Suc n)))
   \<and> pollCalls w op0 (Suc n) =
        pollCalls w op0 n @ [SetTimeout 10000, GetVideosOperation (polled w op0 n)]"
  using pollLoop_None_iff [of v w op0 t tr] stillPolling_all_iff [of w op0]
    startGeneration_None_iff [of s w op0 v] pollLoop_done_at_once [of op0 v w 0 t tr]
    pollLoop_done_after [of w op0 n final v t tr]
  by simp

theorem poll_loop_runs_until_done_witness:
  "pollLoop AppTsx completingWorld 0 pendingOperation (sampleStudio ''A red kite over the sea'' None) [] =
     Some (Inr (finishedOperation None (Some videoUri)),
           (sampleStudio ''A red kite over the sea'' None)
             \<lparr>statusMessage := ''Rendering physics...''\<rparr>,
           [SetTimeout 10000, GetVideosOperation pendingOperation,
            SetTimeout 10000, GetVideosOperation pendingOperation,
            SetTimeout 10000, GetVideosOperation pendingOperation])
   \<and> startGeneration AppTsx pendingForeverWorld (sampleStudio ''A red kite over the sea'' None) = None"
proof -
  have a: "stillPolling completingWorld pendingOperation 2
           \<and> sdk_getVideosOperation completingWorld 2 = Inr (finishedOperation None (Some videoUri))
           \<and> op_done (finishedOperation None (Some videoUri))"
    by (simp add: completingWorld_def sampleWorld_def pollsThen_def pendingOperation_def
        finishedOperation_def eval_nat_numeral)
  have b: "hasInput (sampleStudio ''A red kite over the sea'' None)
           \<and> imageReadable pendingForeverWorld (sampleStudio ''A red kite over the sea'' None)
           \<and> sdk_generateVideos pendingForeverWorld = Inr pendingOperation"
    by (simp add: sample_has_input sample_readable pendingForeverWorld_def sampleWorld_def)
  have c: "\<forall>n. stillPolling pendingForeverWorld pendingOperation n"
    using pendingForever_still by blast
  have t1: "pollLoop AppTsx completingWorld 0 pendingOperation
              (sampleStudio ''A red kite over the sea'' None) [] =
            Some (Inr (finishedOperation None (Some videoUri)),
                  statusAfter AppTsx completingWorld (sampleStudio ''A red kite over the sea'' None) (Suc 2),
                  [] @ pollCalls completingWorld pendingOperation (Suc 2))"
    using poll_loop_runs_until_done
      [of AppTsx completingWorld pendingOperation "sampleStudio ''A red kite over the sea'' None" "[]"
          "sampleStudio ''A red kite over the sea'' None" 2 "finishedOperation None (Some videoUri)"] a
    by blast
  have t2: "startGeneration AppTsx pendingForeverWorld (sampleStudio ''A red kite over the sea'' None) = None"
    using poll_loop_runs_until_done
      [of AppTsx pendingForeverWorld pendingOperation "sampleStudio ''A red kite over the sea'' None" "[]"
          "sampleStudio ''A red kite over the sea'' None" 0 pendingOperation] b c
    by blast
  show ?thesis
    using t1 t2
    by (simp add: eval_nat_numeral completingWorld_def sampleWorld_def pollsThen_def stageMessage_def)
qed

section \<open>Removing an entry of the history\<close>

lemma find_first:
  assumes "\<forall>y \<in> set xs. \<not> P y" and "P x"
  shows "find P (xs @ x # ys) = Some x"
  using assms by (induction xs) simp_all

lemma removeVideo_present:
  assumes "distinct (map video_id (xs @ x # ys))"
  shows "removeVideo (video_id x) (xs @ x # ys) = (xs @ ys, [RevokeObjectURL (video_url x)])"
proof -
  have xs: "\<forall>y \<in> set xs. video_id y \<noteq> video_id x" and ys: "\<forall>y \<in> set ys. video_id y \<noteq> video_id x"
    using assms by (auto simp: image_iff)
  have "find (\<lambda>v. video_id v = video_id x) (xs @ x # ys) = Some x"
    using xs by (intro find_first) auto
  moreover have "filter (\<lambda>v. video_id v \<noteq> video_id x) (xs @ x # ys) = xs @ ys"
    using xs ys by (simp add: filter_id_conv)
  ultimately show ?thesis by (simp add: removeVideo_def)
qed

lemma removeVideo_absent:
  assumes "ident \<notin> set (map video_id h)"
  shows "removeVideo ident h = (h, [])"
proof -
  have "find (\<lambda>v. video_id v = ident) h = None"
    using assms by (auto simp: find_None_iff)
  moreover have "filter (\<lambda>v. video_id v \<noteq> ident) h = h"
    using assms by (auto simp: filter_id_conv)
  ultimately show ?thesis by (simp add: removeVideo_def)
qed

lemma removeVideo_one_release:
  assumes "ident \<in> set (map video_id h)"
  shows "\<exists>x \<in> set h. video_id x = ident \<and> snd (removeVideo ident h) = [RevokeObjectURL (video_url x)]"
proof -
  have "find (\<lambda>v. video_id v = ident) h \<noteq> None"
    using assms by (auto simp: find_None_iff)
  then obtain x where f: "find (\<lambda>v. video_id v = ident) h = Some x" by blast
  then have "x \<in> set h" and "video_id x = ident"
    by (auto simp: find_Some_iff in_set_conv_nth)
  then show ?thesis using f by (auto simp: removeVideo_def)
qed

text \<open>
  C7. Removing an id that no entry has revokes nothing and yields the history as it was.
  Removing an id that an entry has revokes exactly one object URL, that of an entry with the
  id, and keeps the entries with other ids, unchanged and in their order. On a history whose
  entries have distinct ids (an id is a time-based unique token) the result is the history
  without that one entry.
\<close>

theorem removeVideo_releases_entry:
  "(distinct (map video_id h) \<and> h = xs @ x # ys \<longrightarrow>
      removeVideo (video_id x) h = (xs @ ys, [RevokeObjectURL (video_url x)]))
   \<and> (ident \<notin> set (map video_id h) \<longrightarrow> removeVideo ident h = (h, []))
   \<and> (ident \<in> set (map video_id h) \<longrightarrow>
        (\<exists>y \<in> set h. video_id y = ident
           \<and> snd (removeVideo ident h) = [RevokeObjectURL (video_url y)]))
   \<and> fst (removeVideo ident h) = filter (\<lambda>v. video_id v \<noteq> ident) h"
  using removeVideo_present [of xs x ys] removeVideo_absent [of ident h]
    removeVideo_one_release [of ident h]
  by (auto simp: removeVideo_def)

theorem removeVideo_releases_entry_witness:
  "distinct (map video_id [recordedVideo AppTsx completingWorld (sampleStudio ''A red kite over the sea'' None) ''blob:new'', sampleVideo, otherVideo])
   \<and> removeVideo ''1699999999999''
        [recordedVideo AppTsx completingWorld (sampleStudio ''A red kite over the sea'' None) ''blob:new'',
         sampleVideo, otherVideo]
       = ([recordedVideo AppTsx completingWorld (sampleStudio ''A red kite over the sea'' None) ''blob:new'',
           otherVideo],
          [RevokeObjectURL ''blob:earlier''])
   \<and> removeVideo ''42''
        [recordedVideo AppTsx completingWorld (sampleStudio ''A red kite over the sea'' None) ''blob:new'',
         sampleVideo, otherVideo]
       = ([recordedVideo AppTsx completingWorld (sampleStudio ''A red kite over the sea'' None) ''blob:new'',
           sampleVideo, otherVideo], [])"
proof -
  have ids: "map video_id [recordedVideo AppTsx completingWorld (sampleStudio ''A red kite over the sea'' None) ''blob:new'', sampleVideo, otherVideo]
      = [''1700000000000'', ''1699999999999'', ''1699999000000'']"
    by code_simp
  have d: "distinct (map video_id [recordedVideo AppTsx completingWorld (sampleStudio ''A red kite over the sea'' None) ''blob:new'', sampleVideo, otherVideo])"
    unfolding ids by simp
  have split: "[recordedVideo AppTsx completingWorld (sampleStudio ''A red kite over the sea'' None) ''blob:new'', sampleVideo, otherVideo]
      = [recordedVideo AppTsx completingWorld (sampleStudio ''A red kite over the sea'' None) ''blob:new''] @ sampleVideo # [otherVideo]"
    by simp
  have absent: "''42'' \<notin> set (map video_id [recordedVideo AppTsx completingWorld (sampleStudio ''A red kite over the sea'' None) ''blob:new'', sampleVideo, otherVideo])"
    unfolding ids by simp
  show ?thesis
    using removeVideo_releases_entry
      [of "[recordedVideo AppTsx completingWorld (sampleStudio ''A red kite over the sea'' None) ''blob:new'', sampleVideo, otherVideo]"
          "[recordedVideo AppTsx completingWorld (sampleStudio ''A red kite over the sea'' None) ''blob:new'']"
          sampleVideo "[otherVideo]" "''42''"]
      d split absent
    by (simp add: sampleVideo_def)
qed

section \<open>Classification of failures\<close>

lemma catchBlock_classifies_text:
  assumes "err_message err = Some raw" and "raw \<noteq> API_KEY_RESET_REQUIRED"
    and "unwrapMessage raw = JStr m"
  shows "catchBlock v err t tr =
           (Returned,
            t\<lparr>error := Some
                 (if includesStr m (units ''RESOURCE_EXHAUSTED'') \<or> includesStr m (units ''429'')
                     \<or> includesStr (toLowerCase m) (map Some (units ''quota''))
                  then \<lparr> message = quotaMessage v, isQuota = True \<rparr>
                  else \<lparr> message = (if m \<noteq> [] then m else unexpectedMessage), isQuota = False \<rparr>)\<rparr>,
            tr)"
  using assms by (simp add: catchBlock_def isQuotaError_def)

lemma text_examples:
  "unwrapMessage ''quota exceeded RESOURCE_EXHAUSTED'' = JStr (units ''quota exceeded RESOURCE_EXHAUSTED'')"
  "isQuotaError (JStr (units ''quota exceeded RESOURCE_EXHAUSTED'')) = Some True"
  "unwrapMessage ''internal server error'' = JStr (units ''internal server error'')"
  "isQuotaError (JStr (units ''internal server error'')) = Some False"
  "isQuotaError (JStr (units ''Daily QUOTA reached'')) = Some True"
  by code_simp+

text \<open>
  C4. The \<^verbatim>\<open>catch\<close> block classifies a failure by the markers in its unwrapped message; for
  a message whose unwrapped form is text this is \<open>catchBlock_classifies_text\<close> above. The
  unwrapped form need not be text: for the raw message \<^verbatim>\<open>{"error":{"message":429}}\<close> it is
  the number 429, the test for the markers calls a method that a number does not have, and
  \<open>startGeneration\<close> ends with that exception: the failure is classified neither as a quota
  error nor as a generic one, and no error is left in the state.
\<close>

theorem classifier_throws_on_numeric_message:
  "unwrapMessage numericPayload = JNum 429 0
   \<and> isQuotaError (JNum 429 0) = None
   \<and> completionOf (startGeneration AppTsx (rejectingWorld numericPayload)
                      (sampleStudio ''A red kite over the sea'' None)) = Some Uncaught
   \<and> map_option error
        (stateOf (startGeneration AppTsx (rejectingWorld numericPayload)
                    (sampleStudio ''A red kite over the sea'' None))) = Some None
   \<and> completionOf (startGeneration Part000 (rejectingWorld numericPayload)
                      (sampleStudio ''A red kite over the sea'' None)) = Some Uncaught"
  by code_simp

section \<open>Unwrapping of messages\<close>

lemma JSON_parse_Error_prefix: "JSON_parse (''Error: '' @ r) = None"
  by (simp add: JSON_parse_def skipWs_def isJsonWs_def isDigit_def parseLiteral_def)

lemma unwrapMessage_Error_prefix:
  "unwrapMessage (''Error: '' @ r) = JStr (units (''Error: '' @ r))"
  by (simp only: unwrapMessage_def JSON_parse_Error_prefix option.case)

lemma embedded_examples:
  "parseErrorMessage (Error (embeddedError ''X'')) = JStr (units ''X'')"
  "parseErrorMessage (Error (''Error: '' @ messagePayload ''X'')) = JStr (units ''X'')"
  "unwrapMessage (errorPayload ''X'') = JStr (units ''X'')"
  "unwrapMessage (messagePayload ''X'') = JStr (units (messagePayload ''X''))"
  "units (embeddedError ''X'') \<noteq> units ''X''"
  by code_simp+

lemma embedded_runs:
  "startGeneration AppTsx (rejectingWorld (embeddedError ''X''))
       (sampleStudio ''A red kite over the sea'' None)
     = Some (Returned,
             (sampleStudio ''A red kite over the sea'' None)
               \<lparr>error := Some \<lparr> message = units (embeddedError ''X''), isQuota = False \<rparr>\<rparr>,
             [GenerateVideos ''A red kite over the sea'' None R1080p A9x16])"
  "startGeneration Part000 (rejectingWorld (embeddedError ''X''))
       (sampleStudio ''A red kite over the sea'' None)
     = Some (Returned,
             (sampleStudio ''A red kite over the sea'' None)
               \<lparr>error := Some \<lparr> message = units (embeddedError ''X''), isQuota = False \<rparr>\<rparr>,
             [GenerateVideos ''A red kite over the sea'' None R1080p A9x16])"
  by code_simp+

text \<open>
  C5. The \<^verbatim>\<open>catch\<close> block of \<open>startGeneration\<close> (\<^verbatim>\<open>src/App.tsx\<close> lines 168 to 175,
  \<^verbatim>\<open>src/unnamed/part_000\<close> lines 131 to 138) does not look for a \<^verbatim>\<open>{...}\<close> substring: it hands
  the whole message to \<^verbatim>\<open>JSON.parse\<close>, so every message that begins with \<^verbatim>\<open>Error: \<close> is left
  as it is. When the submission is rejected with the message
  \<^verbatim>\<open>Error: {"error":{"message":"X"}}\<close>, the text on display is that whole message and not
  \<open>X\<close>. The step does not read a top-level \<^verbatim>\<open>message\<close> either: \<^verbatim>\<open>{"message":"X"}\<close> is left as
  it is. \<open>parseErrorMessage\<close>, in the second copy of the component, does unwrap
  \<^verbatim>\<open>Error: {"error":{"message":"X"}}\<close> to \<open>X\<close>.
\<close>

theorem inline_step_keeps_embedded_json:
  "unwrapMessage (''Error: '' @ r) = JStr (units (''Error: '' @ r))
   \<and> startGeneration AppTsx (rejectingWorld (embeddedError ''X''))
         (sampleStudio ''A red kite over the sea'' None)
       = Some (Returned,
               (sampleStudio ''A red kite over the sea'' None)
                 \<lparr>error := Some \<lparr> message = units (embeddedError ''X''), isQuota = False \<rparr>\<rparr>,
               [GenerateVideos ''A red kite over the sea'' None R1080p A9x16])
   \<and> startGeneration Part000 (rejectingWorld (embeddedError ''X''))
         (sampleStudio ''A red kite over the sea'' None)
       = Some (Returned,
               (sampleStudio ''A red kite over the sea'' None)
                 \<lparr>error := Some \<lparr> message = units (embeddedError ''X''), isQuota = False \<rparr>\<rparr>,
               [GenerateVideos ''A red kite over the sea'' None R1080p A9x16])
   \<and> units (embeddedError ''X'') \<noteq> units ''X''
   \<and> unwrapMessage (messagePayload ''X'') = JStr (units (messagePayload ''X''))
   \<and> parseErrorMessage (Error (embeddedError ''X'')) = JStr (units ''X'')"
  using unwrapMessage_Error_prefix [of r] embedded_examples embedded_runs
  by (simp only: simp_thms)

section \<open>One call in flight\<close>

lemma pollLoop_state:
  assumes "pollLoop v w i operation t tr = Some (r, t1, tr1)"
  shows "\<exists>m. t1 = t\<lparr>statusMessage := m\<rparr>"
proof -
  have "\<exists>m. fst (snd res) = t'\<lparr>statusMessage := m\<rparr>"
    if "pollLoop v' w' i' operation' t' tr' = Some res" for v' w' i' operation' t' tr' res
  proof (rule pollLoop.raw_induct
      [OF _ that, where P = "\<lambda>v' w' i' operation' t' tr' res. \<exists>m. fst (snd res) = t'\<lparr>statusMessage := m\<rparr>"])
    fix f :: "variant \<Rightarrow> env \<Rightarrow> nat \<Rightarrow> operation \<Rightarrow> studio \<Rightarrow> event list \<Rightarrow>
               ((js_error + operation) \<times> studio \<times> event list) option"
      and v' w' i' operation' t' tr' res
    assume IH: "\<And>v' w' i' operation' t' tr' res. f v' w' i' operation' t' tr' = Some res \<Longrightarrow>
                  \<exists>m. fst (snd res) = t'\<lparr>statusMessage := m\<rparr>"
    assume body: "(if op_done operation' then Some (Inr operation', t', tr')
      else let t1 = t'\<lparr>statusMessage := stageMessage v' (math_random w' i')\<rparr>;
               tr1 = tr' @ [SetTimeout 10000]
           in case getOperationStatus w' i' operation' of
              (Inl err, calls) \<Rightarrow> Some (Inl err, t1, tr1 @ calls)
              | (Inr operation'', calls) \<Rightarrow>
                  f v' w' (Suc i') operation'' t1 (tr1 @ calls)) = Some res"
    show "\<exists>m. fst (snd res) = t'\<lparr>statusMessage := m\<rparr>"
    proof (cases "op_done operation'")
      case True
      then have "fst (snd res) = t'" using body by auto
      then have "fst (snd res) = t'\<lparr>statusMessage := statusMessage t'\<rparr>" by simp
      then show ?thesis by blast
    next
      case False
      obtain res' cs where g: "getOperationStatus w' i' operation' = (res', cs)"
        by (cases "getOperationStatus w' i' operation'") auto
      show ?thesis
      proof (cases res')
        case (Inl err)
        then have "fst (snd res) = t'\<lparr>statusMessage := stageMessage v' (math_random w' i')\<rparr>"
          using body False g by (auto simp: Let_def)
        then show ?thesis by blast
      next
        case (Inr nxt)
        then have "f v' w' (Suc i') nxt (t'\<lparr>statusMessage := stageMessage v' (math_random w' i')\<rparr>)
                     ((tr' @ [SetTimeout 10000]) @ cs) = Some res"
          using body False g by (simp add: Let_def)
        then obtain m where
          "fst (snd res) = (t'\<lparr>statusMessage := stageMessage v' (math_random w' i')\<rparr>)\<lparr>statusMessage := m\<rparr>"
          using IH by blast
        then have "fst (snd res) = t'\<lparr>statusMessage := m\<rparr>" by simp
        then show ?thesis by blast
      qed
    qed
  qed
  from this [OF assms] show ?thesis by simp
qed


lemma afterPolling_state:
  assumes "afterPolling v w c operation t tr = (e, t1, tr1)"
  shows "\<exists>m. t1 = t\<lparr>statusMessage := m\<rparr>
             \<or> (\<exists>x. t1 = t\<lparr>statusMessage := m, history := x # history t, prompt := [],
                               selectedImage := None\<rparr>)"
proof -
  have same: "t = t\<lparr>statusMessage := statusMessage t\<rparr>" by simp
  show ?thesis
  proof (cases "op_error operation = None \<and> (\<exists>u. op_videoUri operation = Some u \<and> u \<noteq> [])")
    case False
    then have "t1 = t"
      using assms by (auto simp: afterPolling_def split: option.splits if_splits)
    then show ?thesis using same by metis
  next
    case True
    then obtain u where u: "op_error operation = None" "op_videoUri operation = Some u" "u \<noteq> []"
      by blast
    obtain res cs where f: "fetchVideoBlobUrl w u = (res, cs)"
      by (cases "fetchVideoBlobUrl w u") auto
    show ?thesis
    proof (cases res)
      case (Inl err)
      then have "t1 = t\<lparr>statusMessage := ''Finalizing download link...''\<rparr>"
        using assms u f by (simp add: afterPolling_def Let_def)
      then show ?thesis by blast
    next
      case (Inr blobUrl)
      then have "t1 = t\<lparr>statusMessage := ''Finalizing download link...'',
                        history := recordedVideo v w c blobUrl # history t, prompt := [],
                        selectedImage := None\<rparr>"
        using assms u f by (simp add: afterPolling_def Let_def recordedVideo_def)
      then show ?thesis by blast
    qed
  qed
qed

lemma tryBlock_state:
  assumes "tryBlock v w c t = Some (e, t1, tr1)"
  shows "\<exists>m. t1 = t\<lparr>statusMessage := m\<rparr>
             \<or> (\<exists>x. t1 = t\<lparr>statusMessage := m, history := x # history t, prompt := [],
                               selectedImage := None\<rparr>)"
proof -
  have same: "t = t\<lparr>statusMessage := statusMessage t\<rparr>" by simp
  show ?thesis
  proof (cases "prepareImage w c")
    case (Inl ev)
    then have "t1 = t" using assms by (simp add: tryBlock_def)
    then show ?thesis using same by metis
  next
    case (Inr imagePayload)
    obtain res cs where g: "generateVeoVideo w (prompt c) (resolution c) (aspectRatio c) imagePayload = (res, cs)"
      by (cases "generateVeoVideo w (prompt c) (resolution c) (aspectRatio c) imagePayload") auto
    show ?thesis
    proof (cases res)
      case (Inl err)
      then have "t1 = t" using assms Inr g by (simp add: tryBlock_def)
      then show ?thesis using same by metis
    next
      case op: (Inr operation)
      from assms Inr g op obtain r t2 tr2 where
        loop: "pollLoop v w 0 operation (t\<lparr>statusMessage := dreamingMessage\<rparr>) cs = Some (r, t2, tr2)"
        and rest: "(case r of Inl err \<Rightarrow> (Some err, t2, tr2)
                    | Inr operation' \<Rightarrow> afterPolling v w c operation' t2 tr2) = (e, t1, tr1)"
        by (auto simp: tryBlock_def split: option.splits sum.splits)
      obtain m where t2: "t2 = t\<lparr>statusMessage := m\<rparr>"
        using pollLoop_state [OF loop] by auto
      show ?thesis
      proof (cases r)
        case (Inl err)
        then have "t1 = t2" using rest by simp
        then show ?thesis using t2 by blast
      next
        case (Inr operation')
        then have "afterPolling v w c operation' t2 tr2 = (e, t1, tr1)" using rest by simp
        from afterPolling_state [OF this] t2 show ?thesis by auto
      qed
    qed
  qed
qed

lemma catchBlock_state:
  "catchBlock v err t tr = (cmp, t1, tr1) \<Longrightarrow> t1 = t \<or> (\<exists>e. t1 = t\<lparr>error := e\<rparr>)"
  by (auto simp: catchBlock_def Let_def split: option.splits if_splits)

lemma resumeGeneration_state:
  assumes "resumeGeneration v w c t = Some (cmp, t1, tr1)"
  shows "\<not> isGenerating t1"
    and "history t1 = history t \<or> (\<exists>x. history t1 = x # history t)"
proof -
  from assms obtain e t2 tr2 where tb: "tryBlock v w c t = Some (e, t2, tr2)"
    by (auto simp: resumeGeneration_def split: option.splits)
  obtain t3 where t1: "t1 = finallyBlock t3"
    and t3: "t3 = t2 \<or> (\<exists>x. t3 = t2\<lparr>error := x\<rparr>)"
  proof (cases e)
    case None
    then have "t1 = finallyBlock t2" using assms tb by (simp add: resumeGeneration_def)
    then show ?thesis using that by blast
  next
    case (Some err)
    obtain c' t' tr' where cb: "catchBlock v err t2 tr2 = (c', t', tr')"
      by (cases "catchBlock v err t2 tr2") auto
    then have "t1 = finallyBlock t'" using assms tb Some by (simp add: resumeGeneration_def)
    then show ?thesis using that catchBlock_state [OF cb] by blast
  qed
  show "\<not> isGenerating t1" using t1 by (simp add: finallyBlock_def)
  have "history t3 = history t2" using t3 by auto
  then have "history t1 = history t2" using t1 by (simp add: finallyBlock_def)
  then show "history t1 = history t \<or> (\<exists>x. history t1 = x # history t)"
    using tryBlock_state [OF tb] by auto
qed

lemma step_history:
  "history (ui (step v a pg)) = history (ui pg)
   \<or> (\<exists>x. history (ui (step v a pg)) = x # history (ui pg))
   \<or> (\<exists>ident. history (ui (step v a pg)) = filter (\<lambda>x. video_id x \<noteq> ident) (history (ui pg)))"
proof (cases a)
  case (RunEnds k)
  show ?thesis
  proof (cases "k < length (inFlight pg)")
    case False
    then show ?thesis using RunEnds by simp
  next
    case True
    obtain w c where wc: "inFlight pg ! k = (w, c)" by (cases "inFlight pg ! k") auto
    show ?thesis
    proof (cases "resumeGeneration v w c (ui pg)")
      case None
      then show ?thesis using RunEnds True wc by simp
    next
      case (Some r)
      obtain cmp t tr where r: "r = (cmp, t, tr)" by (cases r) auto
      then have "ui (step v a pg) = t" using RunEnds True wc Some by simp
      then show ?thesis using resumeGeneration_state(2) [of v w c "ui pg" cmp t tr] Some r by auto
    qed
  qed
next
  case (ClickRemove ident)
  then show ?thesis by (auto simp: removeVideo_def)
qed (auto simp: beginGeneration_def handleImageSelect_def)

lemma rendered_invariant:
  "reachableRendered v pg \<Longrightarrow>
   length (inFlight pg) \<le> 1 \<and> (isGenerating (ui pg) \<longleftrightarrow> inFlight pg \<noteq> [])"
proof (induction rule: reachableRendered.induct)
  case start
  show ?case by (simp add: initialPage_def initialStudio_def)
next
  case (click pg w)
  then show ?case by (auto simp: submitDisabled_def beginGeneration_def)
next
  case (other pg a)
  show ?case
  proof (cases a)
    case (ClickGenerate w)
    then show ?thesis using other.hyps by simp
  next
    case (RunEnds k)
    show ?thesis
    proof (cases "k < length (inFlight pg)")
      case False
      then show ?thesis using RunEnds other.IH by simp
    next
      case True
      then have k: "k = 0" and one: "length (inFlight pg) = 1" using other.IH by auto
      obtain w c where wc: "inFlight pg ! k = (w, c)" by (cases "inFlight pg ! k") auto
      show ?thesis
      proof (cases "resumeGeneration v w c (ui pg)")
        case None
        then show ?thesis using RunEnds True wc other.IH by simp
      next
        case (Some r)
        obtain cmp t tr where r: "r = (cmp, t, tr)" by (cases r) auto
        have "\<not> isGenerating t" using resumeGeneration_state(1) [of v w c "ui pg" cmp t tr] Some r by simp
        then show ?thesis using RunEnds True wc Some r k one by simp
      qed
    qed
  next
    case (ClickRemove ident)
    then show ?thesis using other.IH by (simp split: prod.splits)
  next
    case (PickImage sel)
    then show ?thesis using other.IH by (simp add: handleImageSelect_def)
  qed (use other.IH in auto)
qed


text \<open>
  On a page that shows the state as it is, with no call in flight, a click on the enabled
  submit button followed by the end of the call does to the state what \<open>startGeneration\<close>
  does.
\<close>

lemma click_then_end:
  assumes "view pg = ui pg" and "inFlight pg = []" and "\<not> submitDisabled (ui pg)"
    and "startGeneration v w (ui pg) = Some (cmp, t, tr)"
  shows "step v (RunEnds 0) (step v (ClickGenerate w) pg) =
           pg\<lparr>ui := t, inFlight := [], callLog := callLog pg @ tr\<rparr>"
proof -
  have input: "hasInput (ui pg)"
    using assms(3) by (auto simp: submitDisabled_def hasInput_def)
  have "resumeGeneration v w (ui pg) (beginGeneration (ui pg)) = Some (cmp, t, tr)"
    using assms(4) startGeneration_with_input [OF input, of v w] by simp
  moreover have "\<not> (trim (prompt (view pg)) = [] \<and> selectedImage (view pg) = None)"
    and "\<not> submitDisabled (view pg)"
    using assms(1,3) by (auto simp: submitDisabled_def)
  then have "step v (ClickGenerate w) pg =
      pg\<lparr>ui := beginGeneration (ui pg), inFlight := [(w, ui pg)]\<rparr>"
    using assms(1,2) by auto
  ultimately show ?thesis by simp
qed



end
